theory Spec2Isabelle
  imports Complex_Main "HOL-Library.Sublist"
begin

section \<open>Window merger (src/api/hdhomerun-client.ts)\<close>

text \<open>
  The API response types of \<^verbatim>\<open>types/hdhomerun.ts\<close>. Optional fields are options; the
  programme's \<^verbatim>\<open>ImageURL\<close> is called \<open>ProgrammeImageURL\<close> here because the channel
  record has a field of the same name. Unix timestamps are integers.
\<close>

record ProgrammeGuide =
  StartTime :: int
  EndTime :: int
  Title :: string
  Synopsis :: "string option"
  EpisodeNumber :: "string option"
  EpisodeTitle :: "string option"
  OriginalAirdate :: "int option"
  ProgrammeImageURL :: "string option"
  Categories :: "string list option"

record ChannelGuide =
  GuideNumber :: string
  GuideName :: string
  Affiliate :: "string option"
  ImageURL :: "string option"
  Guide :: "ProgrammeGuide list"

type_synonym EPGResponse = "ChannelGuide list"

text \<open>
  The inner loop of \<^verbatim>\<open>mergeEPGData\<close>: every programme of the new channel is pushed onto
  the base channel's \<^verbatim>\<open>Guide\<close> unless \<^verbatim>\<open>Guide.some(p => p.StartTime === newProgram.StartTime)\<close>.
  The test sees the programmes pushed earlier in the same loop.
\<close>

fun mergeGuide :: "ProgrammeGuide list \<Rightarrow> ProgrammeGuide list \<Rightarrow> ProgrammeGuide list" where
  "mergeGuide baseGuide [] = baseGuide"
| "mergeGuide baseGuide (newProgram # rest) =
     (let exists = list_ex (\<lambda>p. StartTime p = StartTime newProgram) baseGuide
      in mergeGuide (if \<not> exists then baseGuide @ [newProgram] else baseGuide) rest)"

text \<open>
  One iteration of the outer loop: \<^verbatim>\<open>baseGuide.find\<close> returns the first channel with the
  new channel's \<^verbatim>\<open>GuideNumber\<close>; that channel's \<^verbatim>\<open>Guide\<close> is extended in place. When no
  channel matches, nothing happens.
\<close>

fun mergeChannel :: "EPGResponse \<Rightarrow> ChannelGuide \<Rightarrow> EPGResponse" where
  "mergeChannel [] newChannel = []"
| "mergeChannel (ch # chs) newChannel =
     (if GuideNumber ch = GuideNumber newChannel
      then ch\<lparr>Guide := mergeGuide (Guide ch) (Guide newChannel)\<rparr> # chs
      else ch # mergeChannel chs newChannel)"

definition mergeEPGData :: "EPGResponse \<Rightarrow> EPGResponse \<Rightarrow> EPGResponse" where
  "mergeEPGData baseGuide newData = foldl mergeChannel baseGuide newData"

text \<open>
  The merging done by the loop of \<^verbatim>\<open>fetchEPGData\<close> over the windows fetched after the
  base guide: an empty window stops the loop, every other one is merged into the base.
\<close>

fun mergeWindows :: "EPGResponse \<Rightarrow> EPGResponse list \<Rightarrow> EPGResponse" where
  "mergeWindows baseGuide [] = baseGuide"
| "mergeWindows baseGuide (chunkData # later) =
     (if chunkData = [] then baseGuide
      else mergeWindows (mergeEPGData baseGuide chunkData) later)"

text \<open>The Guide invariant: within one channel no two entries share a \<open>StartTime\<close>.\<close>

definition guide_invariant :: "EPGResponse \<Rightarrow> bool" where
  "guide_invariant g = list_all (\<lambda>ch. distinct (map StartTime (Guide ch))) g"

text \<open>
  \<open>extends b m\<close>: channel \<open>m\<close> is channel \<open>b\<close> with programmes appended whose start
  times do not occur in \<open>b\<close>; all other fields are those of \<open>b\<close>.
\<close>

definition extends :: "ChannelGuide \<Rightarrow> ChannelGuide \<Rightarrow> bool" where
  "extends b m \<longleftrightarrow>
     m\<lparr>Guide := Guide b\<rparr> = b \<and> prefix (Guide b) (Guide m) \<and>
     filter (\<lambda>q. StartTime q \<in> StartTime ` set (Guide b)) (Guide m) = Guide b"

subsection \<open>Example guides\<close>

definition exampleProgramme :: "int \<Rightarrow> string \<Rightarrow> ProgrammeGuide" where
  "exampleProgramme t title =
     \<lparr>StartTime = t, EndTime = t + 1800, Title = title, Synopsis = None,
      EpisodeNumber = None, EpisodeTitle = None, OriginalAirdate = None,
      ProgrammeImageURL = None, Categories = None\<rparr>"

definition exampleChannel :: "string \<Rightarrow> string \<Rightarrow> ProgrammeGuide list \<Rightarrow> ChannelGuide" where
  "exampleChannel number name programmes =
     \<lparr>GuideNumber = number, GuideName = name, Affiliate = None, ImageURL = None,
      Guide = programmes\<rparr>"

definition exampleBase :: EPGResponse where
  "exampleBase = [exampleChannel ''2.1'' ''X'' [exampleProgramme 1000 ''Original'']]"

definition exampleWindow :: EPGResponse where
  "exampleWindow =
     [exampleChannel ''2.1'' ''X'' [exampleProgramme 1000 ''Different'', exampleProgramme 2800 ''Next''],
      exampleChannel ''9.9'' ''Y'' [exampleProgramme 1000 ''Elsewhere'']]"

section \<open>Duration parsing (src/xmltv/streaming-filter.ts, src/xmltv/dummy-programming.ts)\<close>

text \<open>
  A string is a list of characters, and a character is one UTF-16 code unit below
  U+0100: \<^verbatim>\<open>length\<close>, \<^verbatim>\<open>slice\<close> and \<^verbatim>\<open>indexOf\<close> count code units, as the source does.
  Text that holds a code unit from U+0100 on is outside the model. \<^verbatim>\<open>toLowerCase\<close> maps
  the capital letters of that range, A to Z and U+00C0 to U+00DE without the
  multiplication sign U+00D7, to the letter 32 places on; \<^verbatim>\<open>\d\<close> is an ASCII digit.
\<close>

definition isUpper :: "char \<Rightarrow> bool" where
  "isUpper c \<longleftrightarrow>
     (65 \<le> (of_char c :: nat) \<and> (of_char c :: nat) \<le> 90) \<or>
     (192 \<le> (of_char c :: nat) \<and> (of_char c :: nat) \<le> 222 \<and> (of_char c :: nat) \<noteq> 215)"

definition toLowerCase :: "string \<Rightarrow> string" where
  "toLowerCase s = map (\<lambda>c. if isUpper c then char_of ((of_char c :: nat) + 32) else c) s"

definition isDigit :: "char \<Rightarrow> bool" where
  "isDigit c \<longleftrightarrow> 48 \<le> (of_char c :: nat) \<and> (of_char c :: nat) \<le> 57"

definition digitValue :: "char \<Rightarrow> nat" where
  "digitValue c = (of_char c :: nat) - 48"

text \<open>The value of a run of decimal digits.\<close>

definition digitsValue :: "string \<Rightarrow> nat" where
  "digitsValue ds = foldl (\<lambda>acc c. 10 * acc + digitValue c) 0 ds"

text \<open>
  The match of \<^verbatim>\<open>/(\d+(?:\.\d+)?)(hr|hour|hours|min|mins|minutes?)?/\<close>. The expression is
  not anchored and everything after \<^verbatim>\<open>\d+\<close> is optional, so the match starts at the
  first digit of the string; \<^verbatim>\<open>\d+\<close> takes every digit there; a dot is taken only when
  a digit follows it; the unit is the first alternative, in the order written, that the
  rest of the string starts with. The result is the two groups: the integer and
  fraction digits of group 1, and group 2 when it took part in the match.
\<close>

definition unitAlternatives :: "string list" where
  "unitAlternatives = [''hr'', ''hour'', ''hours'', ''min'', ''mins'', ''minutes'', ''minute'']"

definition durationMatch :: "string \<Rightarrow> ((string \<times> string) \<times> string option) option" where
  "durationMatch s =
     (let fromDigit = dropWhile (\<lambda>c. \<not> isDigit c) s in
      if fromDigit = [] then None
      else
        let whole = takeWhile isDigit fromDigit;
            afterWhole = dropWhile isDigit fromDigit;
            hasFraction = (case afterWhole of
                             [] \<Rightarrow> False
                           | c # r \<Rightarrow> c = CHR ''.'' \<and> r \<noteq> [] \<and> isDigit (hd r));
            fraction = (if hasFraction then takeWhile isDigit (tl afterWhole) else []);
            afterNumber = (if hasFraction then dropWhile isDigit (tl afterWhole) else afterWhole)
        in Some ((whole, fraction), find (\<lambda>u. prefix u afterNumber) unitAlternatives))"

text \<open>
  \<^verbatim>\<open>parseFloat\<close> of group 1, digits with an optional fraction. Hours are real numbers
  here; the source computes in IEEE doubles.
\<close>

definition parseFloat :: "string \<times> string \<Rightarrow> real" where
  "parseFloat num =
     real (digitsValue (fst num)) + real (digitsValue (snd num)) / 10 ^ length (snd num)"

definition parseDuration :: "string \<Rightarrow> real" where
  "parseDuration durationStr =
     (let normalized = toLowerCase durationStr in
      if normalized = ''true'' \<or> normalized = ''1'' \<or> normalized = ''yes'' then 1
      else
        (case durationMatch normalized of
           None \<Rightarrow> 1
         | Some (num, unitGroup) \<Rightarrow>
             let value = parseFloat num;
                 unit = (case unitGroup of None \<Rightarrow> ''hr'' | Some u \<Rightarrow> u);
                 hours = (if prefix ''min'' unit then value / 60 else value)
             in max (1 / 2) (min 12 hours)))"

section \<open>JavaScript strings and dates, as far as the transforms use them\<close>

subsection \<open>String primitives\<close>

text \<open>
  \<^verbatim>\<open>s.indexOf(pat, pos)\<close>: the first index at or after \<open>pos\<close> where \<open>pat\<close> occurs
  in \<open>s\<close>; \<open>None\<close> stands for -1.
\<close>

fun findFrom :: "string \<Rightarrow> string \<Rightarrow> nat \<Rightarrow> nat option" where
  "findFrom pat [] i = (if pat = [] then Some i else None)"
| "findFrom pat (c # cs) i =
     (if prefix pat (c # cs) then Some i else findFrom pat cs (i + 1))"

definition indexOf :: "string \<Rightarrow> string \<Rightarrow> nat \<Rightarrow> nat option" where
  "indexOf s pat pos = findFrom pat (drop pos s) (min pos (length s))"

text \<open>
  \<^verbatim>\<open>s.slice(a, b)\<close> and \<^verbatim>\<open>s.slice(a)\<close>: a negative index counts from the end, and
  every index is brought into the range of the string.
\<close>

definition sliceIndex :: "nat \<Rightarrow> int \<Rightarrow> nat" where
  "sliceIndex len k = (if k < 0 then nat (max (int len + k) 0) else min (nat k) len)"

definition slice :: "string \<Rightarrow> int \<Rightarrow> int \<Rightarrow> string" where
  "slice s a b =
     (let from = sliceIndex (length s) a; to = sliceIndex (length s) b
      in take (to - from) (drop from s))"

definition sliceFrom :: "string \<Rightarrow> int \<Rightarrow> string" where
  "sliceFrom s a = drop (sliceIndex (length s) a) s"

abbreviation (input) dquote :: char where
  "dquote \<equiv> CHR 0x22"

text \<open>
  \<^verbatim>\<open>parseInt(s)\<close> without a radix: leading white space is skipped, a sign is read, a
  prefix \<^verbatim>\<open>0x\<close> or \<^verbatim>\<open>0X\<close> selects base 16, and the longest run of digits of the base is
  the value; no digit gives NaN, which is \<open>None\<close>. The white space skipped is every
  \<^verbatim>\<open>StrWhiteSpaceChar\<close> below U+0100: tab, line feed, vertical tab, form feed, carriage
  return, space and the no-break space U+00A0.
\<close>

definition isWhiteSpace :: "char \<Rightarrow> bool" where
  "isWhiteSpace c \<longleftrightarrow> (of_char c :: nat) \<in> {9, 10, 11, 12, 13, 32, 160}"

definition hexValue :: "char \<Rightarrow> nat option" where
  "hexValue c =
     (let n = (of_char c :: nat) in
      if 48 \<le> n \<and> n \<le> 57 then Some (n - 48)
      else if 97 \<le> n \<and> n \<le> 102 then Some (n - 87)
      else if 65 \<le> n \<and> n \<le> 70 then Some (n - 55)
      else None)"

definition parseInt :: "string \<Rightarrow> int option" where
  "parseInt s =
     (let trimmed = dropWhile isWhiteSpace s;
          negative = (trimmed \<noteq> [] \<and> hd trimmed = CHR ''-'');
          unsigned = (if trimmed \<noteq> [] \<and> (hd trimmed = CHR ''-'' \<or> hd trimmed = CHR ''+'')
                      then tl trimmed else trimmed);
          hex = (prefix ''0x'' unsigned \<or> prefix ''0X'' unsigned);
          body = (if hex then drop 2 unsigned else unsigned);
          digits = (if hex then takeWhile (\<lambda>c. hexValue c \<noteq> None) body
                    else takeWhile isDigit body);
          magnitude = (if hex then foldl (\<lambda>acc c. 16 * acc + the (hexValue c)) 0 digits
                       else digitsValue digits)
      in if digits = [] then None
         else Some (if negative then - int magnitude else int magnitude))"

subsection \<open>Dates\<close>

text \<open>
  A \<^verbatim>\<open>Date\<close> is its time value, milliseconds since the epoch in UTC. The clock of an
  invocation is the time value of \<^verbatim>\<open>new Date()\<close> and the offset of local time from UTC,
  in minutes. The offset is one constant for the whole invocation: a zone whose offset
  changes inside the days looked at (daylight saving) is outside this model.
\<close>

record Clock =
  now :: int
  tzOffsetMinutes :: int

definition msPerDay :: int where "msPerDay = 86400000"
definition msPerHour :: int where "msPerHour = 3600000"
definition msPerMinute :: int where "msPerMinute = 60000"
definition msPerSecond :: int where "msPerSecond = 1000"

definition LocalTime :: "Clock \<Rightarrow> int \<Rightarrow> int" where
  "LocalTime clock t = t + tzOffsetMinutes clock * msPerMinute"

definition UTC :: "Clock \<Rightarrow> int \<Rightarrow> int" where
  "UTC clock t = t - tzOffsetMinutes clock * msPerMinute"

definition Day :: "int \<Rightarrow> int" where "Day t = t div msPerDay"
definition TimeWithinDay :: "int \<Rightarrow> int" where "TimeWithinDay t = t mod msPerDay"
definition HourFromTime :: "int \<Rightarrow> int" where "HourFromTime t = (t div msPerHour) mod 24"
definition MinFromTime :: "int \<Rightarrow> int" where "MinFromTime t = (t div msPerMinute) mod 60"
definition SecFromTime :: "int \<Rightarrow> int" where "SecFromTime t = (t div msPerSecond) mod 60"
definition msFromTime :: "int \<Rightarrow> int" where "msFromTime t = t mod msPerSecond"

definition MakeTime :: "int \<Rightarrow> int \<Rightarrow> int \<Rightarrow> int \<Rightarrow> int" where
  "MakeTime h m s milli = h * msPerHour + m * msPerMinute + s * msPerSecond + milli"

definition MakeDate :: "int \<Rightarrow> int \<Rightarrow> int" where
  "MakeDate day time = day * msPerDay + time"

definition DayFromYear :: "int \<Rightarrow> int" where
  "DayFromYear y =
     365 * (y - 1970) + (y - 1969) div 4 - (y - 1901) div 100 + (y - 1601) div 400"

definition InLeapYear :: "int \<Rightarrow> bool" where
  "InLeapYear y \<longleftrightarrow> y mod 4 = 0 \<and> (y mod 100 \<noteq> 0 \<or> y mod 400 = 0)"

text \<open>The day within the year on which month \<open>m\<close> (0 to 11) begins.\<close>

definition monthStart :: "bool \<Rightarrow> int \<Rightarrow> int" where
  "monthStart leap m =
     [0, 31, 59, 90, 120, 151, 181, 212, 243, 273, 304, 334] ! nat m
       + (if leap \<and> 2 \<le> m then 1 else 0)"

text \<open>\<^verbatim>\<open>MakeDay\<close>: months outside 0 to 11 carry into the year, days outside the month
  carry into the neighbouring months.\<close>

definition MakeDay :: "int \<Rightarrow> int \<Rightarrow> int \<Rightarrow> int" where
  "MakeDay year month date =
     (let ym = year + month div 12; mn = month mod 12
      in DayFromYear ym + monthStart (InLeapYear ym) mn + date - 1)"

text \<open>\<^verbatim>\<open>TimeClip\<close>: a time value beyond 8.64e15 milliseconds is NaN.\<close>

definition TimeClip :: "int \<Rightarrow> int option" where
  "TimeClip t = (if \<bar>t\<bar> > 8640000000000000 then None else Some t)"

text \<open>
  \<^verbatim>\<open>new Date(year, month, day, hours, minutes, seconds).getTime()\<close>, each argument a
  number or NaN: any NaN gives an invalid date; a year from 0 to 99 means 1900 + year;
  the fields are local time.
\<close>

definition newDate ::
  "Clock \<Rightarrow> int option \<Rightarrow> int option \<Rightarrow> int option \<Rightarrow> int option \<Rightarrow> int option \<Rightarrow> int option
     \<Rightarrow> int option" where
  "newDate clock year month day hours minutes seconds =
     (case (year, month, day, hours, minutes, seconds) of
        (Some y, Some m, Some d, Some h, Some mi, Some s) \<Rightarrow>
          (let yr = (if 0 \<le> y \<and> y \<le> 99 then 1900 + y else y)
           in TimeClip (UTC clock (MakeDate (MakeDay yr m d) (MakeTime h mi s 0))))
      | _ \<Rightarrow> None)"

text \<open>
  \<^verbatim>\<open>d.setHours(0, 0, 0, 0)\<close>: local midnight of the day of \<open>t\<close>.
  \<^verbatim>\<open>d.setDate(d.getDate() + n)\<close>: the same local time of day \<open>n\<close> calendar days later
  (\<^verbatim>\<open>MakeDay\<close> of the year, month and day of \<open>t\<close> plus \<open>n\<close> is \<open>Day t + n\<close>).
\<close>

definition setHoursMidnight :: "Clock \<Rightarrow> int \<Rightarrow> int" where
  "setHoursMidnight clock t = UTC clock (MakeDate (Day (LocalTime clock t)) (MakeTime 0 0 0 0))"

definition addDays :: "Clock \<Rightarrow> int \<Rightarrow> int \<Rightarrow> int" where
  "addDays clock t n =
     (let local = LocalTime clock t
      in UTC clock (MakeDate (Day local + n) (TimeWithinDay local)))"

section \<open>Streaming date filter (src/xmltv/streaming-filter.ts)\<close>

record FilterOptions =
  days :: "int option"

text \<open>
  The variables the two callbacks of the \<^verbatim>\<open>Transform\<close> share. \<^verbatim>\<open>pos\<close> and \<^verbatim>\<open>output\<close> are
  local to one call of \<^verbatim>\<open>transform\<close>.
\<close>

record FilterState =
  buffer :: string
  insideProgramme :: bool
  currentProgramme :: string
  programmeStart :: string

definition initialState :: FilterState where
  "initialState = \<lparr>buffer = [], insideProgramme = False, currentProgramme = [], programmeStart = []\<rparr>"

text \<open>
  The cutoff: \<^verbatim>\<open>new Date()\<close>, \<^verbatim>\<open>setHours(0, 0, 0, 0)\<close>,
  \<^verbatim>\<open>setDate(getDate() + options.days)\<close>, \<^verbatim>\<open>getTime()\<close>. Each of the two setters ends
  with \<^verbatim>\<open>TimeClip\<close>, and a date that has become invalid stays invalid: the cutoff is
  \<open>None\<close>, for NaN, when midnight or the day \<open>n\<close> days later lies outside the range of
  \<^verbatim>\<open>Date\<close>.
\<close>

definition cutoffTimestamp :: "Clock \<Rightarrow> int \<Rightarrow> int option" where
  "cutoffTimestamp clock n =
     Option.bind (TimeClip (setHoursMidnight clock (now clock)))
       (\<lambda>midnight. TimeClip (addDays clock midnight n))"

text \<open>
  The first match of \<^verbatim>\<open>/start="([^"]+)"/\<close> in the opening tag, its group 1: the
  leftmost \<^verbatim>\<open>start="\<close> that is followed by at least one character other than a quote
  and then by a quote.
\<close>

fun startMatch :: "string \<Rightarrow> string option" where
  "startMatch [] = None"
| "startMatch (c # cs) =
     (if prefix (''start='' @ [dquote]) (c # cs)
         \<and> takeWhile (\<lambda>x. x \<noteq> dquote) (drop 7 (c # cs)) \<noteq> []
         \<and> dropWhile (\<lambda>x. x \<noteq> dquote) (drop 7 (c # cs)) \<noteq> []
      then Some (takeWhile (\<lambda>x. x \<noteq> dquote) (drop 7 (c # cs)))
      else startMatch cs)"

text \<open>
  The time value of \<^verbatim>\<open>programmeDate\<close>, built from the six \<^verbatim>\<open>parseInt\<close> fields of the
  start attribute; \<open>None\<close> is the invalid date, whose \<^verbatim>\<open>getTime()\<close> is NaN.
\<close>

definition programmeDate :: "Clock \<Rightarrow> string \<Rightarrow> int option" where
  "programmeDate clock start =
     (let year = parseInt (slice start 0 4);
          month = map_option (\<lambda>m. m - 1) (parseInt (slice start 4 6));
          day = parseInt (slice start 6 8);
          hours = parseInt (slice start 8 10);
          minutes = parseInt (slice start 10 12);
          seconds = parseInt (slice start 12 14)
      in newDate clock year month day hours minutes seconds)"

text \<open>
  "Filter by date": whether the complete programme is added to the output. A comparison
  with NaN, on either side, is false.
\<close>

definition keepProgramme :: "Clock \<Rightarrow> int option \<Rightarrow> string \<Rightarrow> bool" where
  "keepProgramme clock cutoff start =
     (if start \<noteq> [] then
        (case (programmeDate clock start, cutoff) of
           (Some t, Some c) \<Rightarrow> t < c
         | _ \<Rightarrow> False)
      else True)"

text \<open>
  One pass through the body of \<^verbatim>\<open>while (true)\<close> either leaves the loop or starts the
  next pass.
\<close>

datatype LoopStep =
  Break FilterState nat string
| Continue FilterState nat string

text \<open>
  The second half of the body, from "Find end of opening tag" on, reached with
  \<^verbatim>\<open>insideProgramme\<close> set and \<^verbatim>\<open>pos\<close> at the opening marker.
\<close>

definition programmeBody :: "Clock \<Rightarrow> int option \<Rightarrow> FilterState \<Rightarrow> nat \<Rightarrow> string \<Rightarrow> LoopStep" where
  "programmeBody clock cutoff st pos output =
     (case indexOf (buffer st) ''>'' pos of
        None \<Rightarrow> Break st pos output
      | Some openTagEnd \<Rightarrow>
          let st1 = (if programmeStart st = [] then
                       (case startMatch (slice (buffer st) (int pos) (int openTagEnd + 1)) of
                          Some v \<Rightarrow> st\<lparr>programmeStart := v\<rparr>
                        | None \<Rightarrow> st)
                     else st)
          in (case indexOf (buffer st1) ''</programme>'' pos of
                None \<Rightarrow> Break st1 pos output
              | Some programmeEndIdx \<Rightarrow>
                  let st2 = st1\<lparr>currentProgramme :=
                                   slice (buffer st1) (int pos) (int programmeEndIdx + 12),
                                 insideProgramme := False\<rparr>;
                      output2 = (if keepProgramme clock cutoff (programmeStart st2)
                                 then output @ currentProgramme st2 else output)
                  in Continue (st2\<lparr>currentProgramme := [], programmeStart := []\<rparr>)
                       (programmeEndIdx + 12) output2))"

definition loopBody :: "Clock \<Rightarrow> int option \<Rightarrow> FilterState \<Rightarrow> nat \<Rightarrow> string \<Rightarrow> LoopStep" where
  "loopBody clock cutoff st pos output =
     (if \<not> insideProgramme st then
        (case indexOf (buffer st) ''<programme'' pos of
           None \<Rightarrow>
             if int pos < int (length (buffer st)) - 1000
             then Break (st\<lparr>buffer := sliceFrom (buffer st) (- 1000)\<rparr>) pos
                    (output @ slice (buffer st) 0 (- 1000))
             else Break st pos output
         | Some programmeStartIdx \<Rightarrow>
             programmeBody clock cutoff
               (st\<lparr>insideProgramme := True, currentProgramme := [], programmeStart := []\<rparr>)
               programmeStartIdx
               (output @ slice (buffer st) (int pos) (int programmeStartIdx)))
      else programmeBody clock cutoff st pos output)"

lemma findFrom_bounds:
  "findFrom pat s i = Some k \<Longrightarrow> i \<le> k \<and> k + length pat \<le> i + length s"
proof (induction s arbitrary: i)
  case Nil
  then show ?case by (simp split: if_splits)
next
  case (Cons c cs)
  show ?case
  proof (cases "prefix pat (c # cs)")
    case True
    then have "length pat \<le> length (c # cs)" by (rule prefix_length_le)
    with True Cons.prems show ?thesis by simp
  next
    case False
    with Cons.prems have "findFrom pat cs (i + 1) = Some k" by simp
    from Cons.IH [OF this] show ?thesis by simp
  qed
qed

lemma indexOf_bounds:
  assumes "indexOf s pat pos = Some k"
  shows "min pos (length s) \<le> k \<and> k + length pat \<le> length s"
  using findFrom_bounds [OF assms [unfolded indexOf_def]] by auto

lemma programmeBody_Continue:
  assumes "programmeBody clock cutoff st pos output = Continue st' pos' output'"
  shows "buffer st' = buffer st \<and> pos < pos' \<and> pos' \<le> length (buffer st)"
  using assms
  by (auto simp: programmeBody_def Let_def split: option.splits if_splits
      dest!: indexOf_bounds)

lemma loopBody_Continue:
  assumes "loopBody clock cutoff st pos output = Continue st' pos' output'"
  shows "buffer st' = buffer st \<and> pos < pos' \<and> pos' \<le> length (buffer st)"
proof (cases "insideProgramme st")
  case True
  with assms show ?thesis by (simp add: loopBody_def programmeBody_Continue)
next
  case False
  with assms obtain idx where i: "indexOf (buffer st) ''<programme'' pos = Some idx"
    and p: "programmeBody clock cutoff
              (st\<lparr>insideProgramme := True, currentProgramme := [], programmeStart := []\<rparr>) idx
              (output @ slice (buffer st) (int pos) (int idx)) = Continue st' pos' output'"
    by (auto simp: loopBody_def split: option.splits if_splits)
  from programmeBody_Continue [OF p] indexOf_bounds [OF i] show ?thesis by auto
qed

text \<open>The loop; every further pass starts at a greater \<^verbatim>\<open>pos\<close> within the buffer.\<close>

function scanLoop ::
  "Clock \<Rightarrow> int option \<Rightarrow> FilterState \<Rightarrow> nat \<Rightarrow> string \<Rightarrow> FilterState \<times> nat \<times> string" where
  "scanLoop clock cutoff st pos output =
     (case loopBody clock cutoff st pos output of
        Break st' pos' output' \<Rightarrow> (st', pos', output')
      | Continue st' pos' output' \<Rightarrow> scanLoop clock cutoff st' pos' output')"
  by pat_completeness auto
termination
proof (relation "measure (\<lambda>(clock, cutoff, st, pos, output). length (buffer st) - pos)")
  show "wf (measure (\<lambda>(clock, cutoff, st, pos, output). length (buffer st) - pos))"
    by simp
next
  fix clock cutoff st pos out st' pos' out'
  assume "loopBody clock cutoff st pos out = Continue st' pos' out'"
  from loopBody_Continue [OF this]
  show "((clock, cutoff, st', pos', out'), (clock, cutoff, st, pos, out))
        \<in> measure (\<lambda>(clock, cutoff, st, pos, output). length (buffer st) - pos)"
    by auto
qed

declare scanLoop.simps [simp del]

text \<open>
  \<^verbatim>\<open>transform(chunk)\<close>: the chunk is appended to the buffer, the loop runs from
  \<^verbatim>\<open>pos = 0\<close>, the output is pushed and the buffer keeps what lies after \<^verbatim>\<open>pos\<close>. The
  result is the new state and the text pushed. \<^verbatim>\<open>flush\<close> pushes the buffer.
\<close>

definition transform :: "Clock \<Rightarrow> int option \<Rightarrow> FilterState \<Rightarrow> string \<Rightarrow> FilterState \<times> string" where
  "transform clock cutoff st chunk =
     (case scanLoop clock cutoff (st\<lparr>buffer := buffer st @ chunk\<rparr>) 0 [] of
        (st', pos, output) \<Rightarrow> (st'\<lparr>buffer := sliceFrom (buffer st') (int pos)\<rparr>, output))"

definition flush :: "FilterState \<Rightarrow> string" where
  "flush st = buffer st"

text \<open>The bytes written when the chunks of the input go through the transform in order.\<close>

fun pipeline :: "Clock \<Rightarrow> int option \<Rightarrow> FilterState \<Rightarrow> string list \<Rightarrow> string" where
  "pipeline clock cutoff st [] = flush st"
| "pipeline clock cutoff st (chunk # chunks) =
     (case transform clock cutoff st chunk of
        (st', output) \<Rightarrow> output @ pipeline clock cutoff st' chunks)"

text \<open>The state reached and the text pushed after some chunks, before the stream ends.\<close>

fun feed :: "Clock \<Rightarrow> int option \<Rightarrow> FilterState \<Rightarrow> string list \<Rightarrow> FilterState \<times> string" where
  "feed clock cutoff st [] = (st, [])"
| "feed clock cutoff st (chunk # chunks) =
     (case transform clock cutoff st chunk of
        (st', output) \<Rightarrow>
          (case feed clock cutoff st' chunks of (st'', later) \<Rightarrow> (st'', output @ later)))"

text \<open>
  \<^verbatim>\<open>streamFilterEPG\<close>. The input file is the list of chunks its read stream delivers and
  the result is the content of the output file. \<^verbatim>\<open>!options.days\<close> holds when the option
  is absent, NaN (both \<open>None\<close>) or 0; the file is then copied.
\<close>

definition streamFilterEPG :: "Clock \<Rightarrow> string list \<Rightarrow> FilterOptions \<Rightarrow> string" where
  "streamFilterEPG clock input options =
     (case days options of
        None \<Rightarrow> concat input
      | Some n \<Rightarrow>
          if n = 0 then concat input
          else pipeline clock (cutoffTimestamp clock n) initialState input)"

text \<open>The two ways of delivering a document that chunk-invariance compares.\<close>

definition singleChunk :: "string \<Rightarrow> string list" where
  "singleChunk doc = [doc]"

definition byteChunks :: "string \<Rightarrow> string list" where
  "byteChunks doc = map (\<lambda>c. [c]) doc"

section \<open>Placeholder programmes (src/xmltv/streaming-filter.ts, second module)\<close>

record StreamingDummyOptions =
  duration :: string
  title :: "string option"
  description :: "string option"
  daysFilter :: "int option"

text \<open>
  \<^verbatim>\<open>LineupItem\<close> and \<^verbatim>\<open>ChannelInfo\<close>. The fields \<^verbatim>\<open>GuideNumber\<close>, \<^verbatim>\<open>GuideName\<close>, \<^verbatim>\<open>id\<close> and
  \<^verbatim>\<open>name\<close> carry a prefix here, the first two because \<open>ChannelGuide\<close> has fields of
  these names, the last two because \<open>id\<close> is a constant of HOL.
\<close>

record LineupItem =
  lineupGuideNumber :: string
  lineupGuideName :: string

record ChannelInfo =
  channelId :: string
  channelName :: string

text \<open>
  What \<^verbatim>\<open>parser.parse\<close> returns for the input, after the two arrays have been
  normalised: for each channel the attribute \<^verbatim>\<open>@_id\<close> and the \<^verbatim>\<open>display-name\<close>, which is
  a string, a node with an optional \<^verbatim>\<open>#text\<close>, or absent; for each programme the attribute
  \<^verbatim>\<open>@_channel\<close>. The parser is a library; its result is an input of the model.
\<close>

datatype DisplayName = DisplayText string | DisplayNode "string option" | DisplayAbsent

record ParsedChannel =
  attrId :: "string option"
  displayName :: DisplayName

record ParsedProgramme =
  attrChannel :: "string option"

record ParsedTV =
  tvChannel :: "ParsedChannel list"
  tvProgramme :: "ParsedProgramme list"

abbreviation (input) newline :: char where
  "newline \<equiv> CHR 0x0A"

text \<open>\<^verbatim>\<open>a || b\<close> on strings that may be undefined: the empty string is false.\<close>

definition orElse :: "string option \<Rightarrow> string \<Rightarrow> string" where
  "orElse a b = (case a of None \<Rightarrow> b | Some s \<Rightarrow> if s = [] then b else s)"

subsection \<open>Text helpers\<close>

definition replaceAll :: "char \<Rightarrow> string \<Rightarrow> string \<Rightarrow> string" where
  "replaceAll c r s = concat (map (\<lambda>x. if x = c then r else [x]) s)"

definition escapeXML :: "string \<Rightarrow> string" where
  "escapeXML text =
     replaceAll (CHR 0x27) ''&apos;''
       (replaceAll dquote ''&quot;''
         (replaceAll (CHR ''>'') ''&gt;''
           (replaceAll (CHR ''<'') ''&lt;''
             (replaceAll (CHR ''&'') ''&amp;'' text))))"

text \<open>
  \<^verbatim>\<open>s.replace(pattern, replacement)\<close> with a string pattern: the first occurrence is
  replaced, and in the replacement \<^verbatim>\<open>$$\<close>, \<^verbatim>\<open>$&\<close>, \<^verbatim>\<open>$`\<close> and \<^verbatim>\<open>$'\<close> stand for a dollar
  sign, the match, the text before it and the text after it.
\<close>

fun getSubstitution :: "string \<Rightarrow> string \<Rightarrow> string \<Rightarrow> string \<Rightarrow> string" where
  "getSubstitution matched preceding following (c # d # r) =
     (if c = CHR ''$'' \<and> d = CHR ''$'' then CHR ''$'' # getSubstitution matched preceding following r
      else if c = CHR ''$'' \<and> d = CHR ''&'' then matched @ getSubstitution matched preceding following r
      else if c = CHR ''$'' \<and> d = CHR 0x60 then preceding @ getSubstitution matched preceding following r
      else if c = CHR ''$'' \<and> d = CHR 0x27 then following @ getSubstitution matched preceding following r
      else c # getSubstitution matched preceding following (d # r))"
| "getSubstitution matched preceding following r = r"

definition replaceFirst :: "string \<Rightarrow> string \<Rightarrow> string \<Rightarrow> string" where
  "replaceFirst pat replacement s =
     (case indexOf s pat 0 of
        None \<Rightarrow> s
      | Some i \<Rightarrow>
          take i s @ getSubstitution pat (take i s) (drop (i + length pat) s) replacement
            @ drop (i + length pat) s)"

function showNat :: "nat \<Rightarrow> string" where
  "showNat n = (if n < 10 then [char_of (48 + n)] else showNat (n div 10) @ [char_of (48 + n mod 10)])"
  by pat_completeness auto
termination
  by (relation "measure (\<lambda>n. n)") auto

declare showNat.simps [simp del]

definition showInt :: "int \<Rightarrow> string" where
  "showInt i = (if i < 0 then CHR ''-'' # showNat (nat (- i)) else showNat (nat i))"

definition padStart2 :: "string \<Rightarrow> string" where
  "padStart2 s = replicate (2 - length s) (CHR ''0'') @ s"

subsection \<open>Calendar fields of a time value\<close>

text \<open>
  \<^verbatim>\<open>YearFromTime\<close>, \<^verbatim>\<open>MonthFromTime\<close> (0 to 11) and \<^verbatim>\<open>DateFromTime\<close> of a day number, in
  closed form over the 400-year cycle that begins on 1 March 0000.
\<close>

definition civilFromDays :: "int \<Rightarrow> int \<times> int \<times> int" where
  "civilFromDays day =
     (let z = day + 719468;
          era = z div 146097;
          doe = z mod 146097;
          yoe = (doe - doe div 1460 + doe div 36524 - doe div 146096) div 365;
          doy = doe - (365 * yoe + yoe div 4 - yoe div 100);
          mp = (5 * doy + 2) div 153;
          d = doy - (153 * mp + 2) div 5 + 1;
          m = (if mp < 10 then mp + 3 else mp - 9);
          y = yoe + era * 400 + (if m \<le> 2 then 1 else 0)
      in (y, m - 1, d))"

text \<open>\<^verbatim>\<open>d.getHours()\<close>, and \<^verbatim>\<open>ToIntegerOrInfinity\<close> on a finite number: the fraction is cut
  off, towards zero.\<close>

definition getHours :: "Clock \<Rightarrow> int \<Rightarrow> int" where
  "getHours clock t = HourFromTime (LocalTime clock t)"

definition ToIntegerOrInfinity :: "real \<Rightarrow> int" where
  "ToIntegerOrInfinity x = (if x < 0 then \<lceil>x\<rceil> else \<lfloor>x\<rfloor>)"

text \<open>
  \<^verbatim>\<open>d.setHours(hour)\<close> with one argument: \<^verbatim>\<open>MakeTime\<close> takes the integer part of the hour
  and keeps the minutes, seconds and milliseconds of the local time.
\<close>

definition setHours :: "Clock \<Rightarrow> int \<Rightarrow> real \<Rightarrow> int" where
  "setHours clock t hour =
     (let local = LocalTime clock t
      in UTC clock (MakeDate (Day local)
           (MakeTime (ToIntegerOrInfinity hour) (MinFromTime local) (SecFromTime local)
              (msFromTime local))))"

definition formatTimestamp :: "Clock \<Rightarrow> int \<Rightarrow> string" where
  "formatTimestamp clock date =
     (let local = LocalTime clock date;
          (year, month0, day) = civilFromDays (Day local);
          month = padStart2 (showInt (month0 + 1));
          dayS = padStart2 (showInt day);
          hours = padStart2 (showInt (HourFromTime local));
          minutes = padStart2 (showInt (MinFromTime local));
          seconds = padStart2 (showInt (SecFromTime local));
          tzOffset = tzOffsetMinutes clock;
          tzSign = (if tzOffset \<ge> 0 then ''+'' else ''-'');
          tzHours = padStart2 (showInt (\<bar>tzOffset\<bar> div 60));
          tzMinutes = padStart2 (showInt (\<bar>tzOffset\<bar> mod 60))
      in showInt year @ month @ dayS @ hours @ minutes @ seconds @ '' '' @ tzSign @ tzHours
           @ tzMinutes)"

subsection \<open>The generator\<close>

text \<open>The text of one placeholder programme, as the template literal builds it.\<close>

definition programmeXML :: "Clock \<Rightarrow> ChannelInfo \<Rightarrow> string \<Rightarrow> string \<Rightarrow> int \<Rightarrow> int \<Rightarrow> string" where
  "programmeXML clock channel titleText descriptionText currentTime nextTime =
     ''  <programme channel='' @ [dquote] @ escapeXML (channelId channel) @ [dquote]
       @ '' start='' @ [dquote] @ formatTimestamp clock currentTime @ [dquote]
       @ '' stop='' @ [dquote] @ formatTimestamp clock nextTime @ [dquote] @ ''>'' @ [newline]
       @ ''    <title lang='' @ [dquote] @ ''en'' @ [dquote] @ ''>'' @ escapeXML titleText
       @ ''</title>'' @ [newline]
       @ ''    <desc lang='' @ [dquote] @ ''en'' @ [dquote] @ ''>'' @ escapeXML descriptionText
       @ ''</desc>'' @ [newline]
       @ ''  </programme>'' @ [newline]"

text \<open>
  The loop \<^verbatim>\<open>while (currentTime < endDate)\<close> of \<^verbatim>\<open>generateDummyProgrammes\<close>. Nothing in
  the source bounds the number of passes, so the result is an option: \<open>None\<close> is a loop
  that never ends. The result \<open>Some\<close> holds the strings yielded, in order.
\<close>

partial_function (option) dummyLoop ::
  "Clock \<Rightarrow> ChannelInfo \<Rightarrow> real \<Rightarrow> string \<Rightarrow> string \<Rightarrow> int \<Rightarrow> int \<Rightarrow> string list option" where
  "dummyLoop clock channel durationHours titleText descriptionText endDate currentTime =
     (if currentTime < endDate then
        (let nextTime = setHours clock currentTime
                          (real_of_int (getHours clock currentTime) + durationHours)
         in Option.bind
              (dummyLoop clock channel durationHours titleText descriptionText endDate nextTime)
              (\<lambda>later. Some (programmeXML clock channel titleText descriptionText
                                currentTime nextTime # later)))
      else Some [])"

declare dummyLoop.simps [code]

definition generateDummyProgrammes ::
  "Clock \<Rightarrow> ChannelInfo \<Rightarrow> real \<Rightarrow> string \<Rightarrow> string \<Rightarrow> int \<Rightarrow> string list option" where
  "generateDummyProgrammes clock channel durationHours titleText descTemplate dayCount =
     (let startDate = setHoursMidnight clock (now clock);
          endDate = addDays clock startDate dayCount;
          descriptionText = replaceFirst ''{channel}'' (channelName channel) descTemplate
      in dummyLoop clock channel durationHours titleText descriptionText endDate startDate)"

section \<open>Placeholder injector (streamDummyProgramming)\<close>

definition truthy :: "string option \<Rightarrow> bool" where
  "truthy a = (case a of None \<Rightarrow> False | Some s \<Rightarrow> s \<noteq> [])"

text \<open>The ids of the channels that programmes refer to, and of the channels present.\<close>

definition channelsWithPrograms :: "ParsedTV \<Rightarrow> string list" where
  "channelsWithPrograms parsed = map the (filter truthy (map attrChannel (tvProgramme parsed)))"

definition existingChannels :: "ParsedTV \<Rightarrow> string list" where
  "existingChannels parsed = map the (filter truthy (map attrId (tvChannel parsed)))"

text \<open>"Find missing channels": the lineup items whose number is no channel of the input.\<close>

definition missingChannels :: "ParsedTV \<Rightarrow> LineupItem list \<Rightarrow> ChannelInfo list" where
  "missingChannels parsed lineup =
     map (\<lambda>item. \<lparr>channelId = lineupGuideNumber item, channelName = lineupGuideName item\<rparr>)
       (filter (\<lambda>item. lineupGuideNumber item \<noteq> []
                  \<and> lineupGuideNumber item \<notin> set (existingChannels parsed)) lineup)"

text \<open>"Find channels without programmes", with the name taken from the lineup first.\<close>

definition channelInfoOf :: "LineupItem list \<Rightarrow> ParsedChannel \<Rightarrow> ChannelInfo" where
  "channelInfoOf lineup channel =
     (let ident = the (attrId channel);
          lineupItem = find (\<lambda>l. lineupGuideNumber l = ident) lineup;
          shown = (case displayName channel of
                     DisplayText s \<Rightarrow> s
                   | DisplayNode t \<Rightarrow> orElse t ident
                   | DisplayAbsent \<Rightarrow> ident)
      in \<lparr>channelId = ident, channelName = orElse (map_option lineupGuideName lineupItem) shown\<rparr>)"

definition channelsNeedingDummy :: "ParsedTV \<Rightarrow> LineupItem list \<Rightarrow> ChannelInfo list" where
  "channelsNeedingDummy parsed lineup =
     map (channelInfoOf lineup)
       (filter (\<lambda>channel. truthy (attrId channel)
                  \<and> the (attrId channel) \<notin> set (channelsWithPrograms parsed)) (tvChannel parsed))"

definition channelXML :: "ChannelInfo \<Rightarrow> string" where
  "channelXML channel =
     ''  <channel id='' @ [dquote] @ escapeXML (channelId channel) @ [dquote] @ ''>'' @ [newline]
       @ ''    <display-name lang='' @ [dquote] @ ''en'' @ [dquote] @ ''>''
       @ escapeXML (channelName channel) @ ''</display-name>'' @ [newline]
       @ ''  </channel>'' @ [newline]"

text \<open>
  Everything pushed between the text before \<^verbatim>\<open></tv>\<close> and the closing tag: the new
  channel definitions, then the programmes of every channel of
  \<^verbatim>\<open>[...channelsNeedingDummy, ...missingChannels]\<close>. It is \<open>None\<close> when a generator does not
  end.
\<close>

definition insertedText ::
  "Clock \<Rightarrow> ChannelInfo list \<Rightarrow> ChannelInfo list \<Rightarrow> real \<Rightarrow> string \<Rightarrow> string \<Rightarrow> int
     \<Rightarrow> string option" where
  "insertedText clock missing needing durationHours titleText descTemplate dayCount =
     Option.bind
       (those (map (\<lambda>channel. generateDummyProgrammes clock channel durationHours titleText
                                descTemplate dayCount) (needing @ missing)))
       (\<lambda>runs. Some (concat (map channelXML missing) @ concat (concat runs)))"

record DummyState =
  dummyBuffer :: string
  insideClosingTag :: bool

text \<open>
  \<^verbatim>\<open>transform(chunk)\<close> of the injector: the new state and the text pushed, or \<open>None\<close>
  when the insertion never ends. \<^verbatim>\<open>buffer.split('</tv>')\<close> gives the text before the
  first closing tag and the text between the first and the second one, or up to the end.
\<close>

definition dummyTransform ::
  "string option \<Rightarrow> DummyState \<Rightarrow> string \<Rightarrow> (DummyState \<times> string) option" where
  "dummyTransform insertion st chunk =
     (let buf = dummyBuffer st @ chunk in
      case (if insideClosingTag st then None else indexOf buf ''</tv>'' 0) of
        Some i \<Rightarrow>
          (let part0 = take i buf;
               rest = drop (i + 5) buf;
               part1 = (case indexOf rest ''</tv>'' 0 of None \<Rightarrow> rest | Some k \<Rightarrow> take k rest)
           in case insertion of
                None \<Rightarrow> None
              | Some inserted \<Rightarrow>
                  Some (\<lparr>dummyBuffer = [], insideClosingTag = True\<rparr>,
                        part0 @ inserted @ ''</tv>'' @ part1))
      | None \<Rightarrow>
          if \<not> insideClosingTag st then
            (if length buf > 10000
             then Some (st\<lparr>dummyBuffer := sliceFrom buf (- 1000)\<rparr>, slice buf 0 (- 1000))
             else Some (st\<lparr>dummyBuffer := buf\<rparr>, []))
          else Some (st\<lparr>dummyBuffer := buf\<rparr>, []))"

definition dummyFlush :: "DummyState \<Rightarrow> string" where
  "dummyFlush st = (if dummyBuffer st \<noteq> [] \<and> \<not> insideClosingTag st then dummyBuffer st else [])"

fun dummyPipeline :: "string option \<Rightarrow> DummyState \<Rightarrow> string list \<Rightarrow> string option" where
  "dummyPipeline insertion st [] = Some (dummyFlush st)"
| "dummyPipeline insertion st (chunk # chunks) =
     (case dummyTransform insertion st chunk of
        None \<Rightarrow> None
      | Some (st', pushed) \<Rightarrow>
          map_option (\<lambda>later. pushed @ later) (dummyPipeline insertion st' chunks))"

record DummyResult =
  outputFile :: string
  channelsAdded :: nat
  dummyChannels :: nat

text \<open>
  \<^verbatim>\<open>streamDummyProgramming\<close>. The input file is the list of chunks its read stream delivers;
  \<open>parsed\<close> is the parse of the same file and \<open>lineup\<close> the lineup fetched from the
  device, empty when the request fails. \<open>None\<close> is a call that never returns.
\<close>

definition streamDummyProgramming ::
  "Clock \<Rightarrow> string list \<Rightarrow> ParsedTV \<Rightarrow> LineupItem list \<Rightarrow> StreamingDummyOptions
     \<Rightarrow> DummyResult option" where
  "streamDummyProgramming clock input parsed lineup options =
     (let durationHours = parseDuration (duration options);
          titleText = orElse (title options) ''No Information'';
          descTemplate = orElse (description options)
                           ''No program information is currently available for {channel}.'';
          dayCount = (case daysFilter options of None \<Rightarrow> 7 | Some n \<Rightarrow> if n = 0 then 7 else n);
          missing = missingChannels parsed lineup;
          needing = channelsNeedingDummy parsed lineup
      in if missing = [] \<and> needing = []
         then Some \<lparr>outputFile = concat input, channelsAdded = 0, dummyChannels = 0\<rparr>
         else
           map_option
             (\<lambda>written. \<lparr>outputFile = written, channelsAdded = length missing,
                          dummyChannels = length missing + length needing\<rparr>)
             (dummyPipeline
                (insertedText clock missing needing durationHours titleText descTemplate dayCount)
                \<lparr>dummyBuffer = [], insideClosingTag = False\<rparr> input))"

section \<open>The document behind the stream\<close>

text \<open>
  The transform of the filter sees its input through a buffer. The definitions of this
  section speak of the whole input, the concatenation of the chunks, and serve to say
  what the transform writes for it.
\<close>

lemma indexOf_from:
  assumes "indexOf s pat pos = Some k" and "pat \<noteq> []"
  shows "pos \<le> k \<and> k + length pat \<le> length s"
proof -
  from assms(2) have "0 < length pat" by simp
  moreover from findFrom_bounds [OF assms(1) [unfolded indexOf_def]]
  have "min pos (length s) \<le> k" "k + length pat \<le> min pos (length s) + (length s - pos)"
    by simp_all
  ultimately show ?thesis by arith
qed

text \<open>
  The scan of the loop of \<^verbatim>\<open>transform\<close> run over a complete document, with \<^verbatim>\<open>pos\<close> and
  \<^verbatim>\<open>insideProgramme\<close> as in the loop and without the buffer. Outside a programme the next
  \<^verbatim>\<open><programme\<close> is looked for from \<^verbatim>\<open>pos\<close> on and the text before it is passthrough.
  Inside, the first \<^verbatim>\<open>>\<close> and the first \<^verbatim>\<open></programme>\<close> from the marker on delimit the
  programme, and the scan goes on after the closing marker. A marker whose \<^verbatim>\<open>>\<close> or
  \<^verbatim>\<open></programme>\<close> is missing begins the unterminated element that the document ends with.
  \<open>Programme i j e\<close> holds the positions of the marker, of the end of the opening tag and
  of the closing marker; \<open>Unterminated i\<close> the position of the marker.
\<close>

datatype DocumentPart = Passthrough string | Programme nat nat nat | Unterminated nat

function documentParts :: "string \<Rightarrow> bool \<Rightarrow> nat \<Rightarrow> DocumentPart list" where
  "documentParts doc inside pos =
     (if \<not> inside then
        (case indexOf doc ''<programme'' pos of
           None \<Rightarrow> [Passthrough (sliceFrom doc (int pos))]
         | Some programmeStartIdx \<Rightarrow>
             Passthrough (slice doc (int pos) (int programmeStartIdx))
               # documentParts doc True programmeStartIdx)
      else
        (case indexOf doc ''>'' pos of
           None \<Rightarrow> [Unterminated pos]
         | Some openTagEnd \<Rightarrow>
             (case indexOf doc ''</programme>'' pos of
                None \<Rightarrow> [Unterminated pos]
              | Some programmeEndIdx \<Rightarrow>
                  Programme pos openTagEnd programmeEndIdx
                    # documentParts doc False (programmeEndIdx + 12))))"
  by pat_completeness auto
termination
proof (relation "measure (\<lambda>(doc, inside, pos). 2 * (length doc - pos) + (if inside then 0 else 1))",
    goal_cases)
  case 1
  show ?case by simp
next
  case (2 doc inside pos i)
  from indexOf_from [OF 2(2)] have "pos \<le> i" by simp
  then have "length doc - i \<le> length doc - pos" by arith
  with 2(1) show ?case by simp
next
  case (3 doc inside pos j e)
  from indexOf_from [OF 3(3)] have "pos \<le> e \<and> e + 12 \<le> length doc" by simp
  then have "length doc - (e + 12) < length doc - pos" by arith
  with 3(1) show ?case by simp
qed

declare documentParts.simps [simp del]

text \<open>
  What the filter is to write for a part: passthrough text as it is; a programme when
  "Filter by date" keeps it, with \<^verbatim>\<open>programmeStart\<close> read from its opening tag or left
  empty; an unterminated element as it stands. \<open>scanDocument\<close> is the text of all parts
  in order.
\<close>

definition partWritten :: "Clock \<Rightarrow> int option \<Rightarrow> string \<Rightarrow> DocumentPart \<Rightarrow> string" where
  "partWritten clock cutoff doc part =
     (case part of
        Passthrough text \<Rightarrow> text
      | Programme i j e \<Rightarrow>
          (if keepProgramme clock cutoff
                (case startMatch (slice doc (int i) (int j + 1)) of None \<Rightarrow> [] | Some v \<Rightarrow> v)
           then slice doc (int i) (int e + 12) else [])
      | Unterminated i \<Rightarrow> sliceFrom doc (int i))"

definition scanDocument :: "Clock \<Rightarrow> int option \<Rightarrow> string \<Rightarrow> bool \<Rightarrow> nat \<Rightarrow> string" where
  "scanDocument clock cutoff doc inside pos =
     concat (map (partWritten clock cutoff doc) (documentParts doc inside pos))"

text \<open>
  The passthrough branch of the loop pushes \<^verbatim>\<open>buffer.slice(0, -1000)\<close> when no marker is
  found and more than 1000 characters follow \<^verbatim>\<open>pos\<close> in the buffer. After a programme
  this cannot happen in a document in which every \<^verbatim>\<open></programme>\<close> is followed closely
  by the next marker, which begins at most 991 characters after it, or by the end of
  the document, at most 1000 characters after it.
\<close>

definition closingTagsFollowed :: "string \<Rightarrow> bool" where
  "closingTagsFollowed doc \<longleftrightarrow>
     (\<forall>e < length doc. prefix ''</programme>'' (drop e doc) \<longrightarrow>
        length doc \<le> e + 12 + 1000 \<or>
        (\<exists>k \<in> {e + 12 .. e + 12 + 991}. prefix ''<programme'' (drop k doc)))"

text \<open>
  The state of the transform between two chunks, when \<open>received\<close> has arrived of the
  document \<open>received @ later\<close> and the buffer holds what was received from position \<open>p\<close>
  on. Inside a programme \<open>p\<close> is the position of its marker, \<^verbatim>\<open>programmeStart\<close> is empty
  or the start attribute of its opening tag, and the programme is not complete in what
  was received; outside, no marker lies in what was received from \<open>p\<close> on.
\<close>

definition startRead :: "string \<Rightarrow> FilterState \<Rightarrow> nat \<Rightarrow> bool" where
  "startRead doc st p \<longleftrightarrow>
     programmeStart st = [] \<or>
     (\<exists>j. indexOf doc ''>'' p = Some j
          \<and> startMatch (slice doc (int p) (int j + 1)) = Some (programmeStart st))"

definition bufferedAt :: "string \<Rightarrow> string \<Rightarrow> FilterState \<Rightarrow> nat \<Rightarrow> bool" where
  "bufferedAt received later st p \<longleftrightarrow>
     p \<le> length received \<and> buffer st = drop p received \<and>
     (if insideProgramme st then
        prefix ''<programme'' (drop p (received @ later)) \<and> startRead (received @ later) st p \<and>
        (indexOf received ''>'' p = None \<or> indexOf received ''</programme>'' p = None)
      else indexOf received ''<programme'' p = None)"

section \<open>Example inputs\<close>

text \<open>A clock: 1 January 2024, 05:30 local time, five hours behind UTC.\<close>

definition exampleClock :: Clock where
  "exampleClock = \<lparr>now = 1704105000000, tzOffsetMinutes = - 300\<rparr>"

text \<open>A programme whose start attribute is the given text, and a document with it.\<close>

definition programmeWithStart :: "string \<Rightarrow> string" where
  "programmeWithStart start =
     ''<programme start='' @ [dquote] @ start @ [dquote] @ '' channel='' @ [dquote]
       @ ''2.1'' @ [dquote] @ ''><title>News</title></programme>''"

definition documentWithStart :: "string \<Rightarrow> string" where
  "documentWithStart start = ''<tv>'' @ programmeWithStart start @ ''</tv>''"

text \<open>
  A document whose programme starts on 10 January and is followed by 1100 characters of
  text before the closing tag.
\<close>

definition lateProgrammeDocument :: string where
  "lateProgrammeDocument =
     (''<tv>'' @ programmeWithStart ''20240110000000 -0500'')
       @ replicate 1100 (CHR ''x'') @ ''</tv>''"

definition documentWithoutStart :: string where
  "documentWithoutStart =
     ''<tv><programme channel='' @ [dquote] @ ''2.1'' @ [dquote]
       @ ''><title>News</title></programme></tv>''"

text \<open>A programme without attributes followed by 1001 characters of other text.\<close>

definition longTailDocument :: string where
  "longTailDocument = ''<programme></programme>'' @ replicate 1001 (CHR ''x'')"

text \<open>
  The injector's scenario: the document has the channels A and B and one programme, of
  channel A; the lineup has A, B and C.
\<close>

definition scenarioDocument :: string where
  "scenarioDocument =
     ''<tv><channel id='' @ [dquote] @ ''A'' @ [dquote] @ ''><display-name>Alpha</display-name></channel>''
       @ ''<channel id='' @ [dquote] @ ''B'' @ [dquote] @ ''><display-name>Beta</display-name></channel>''
       @ ''<programme start='' @ [dquote] @ ''20240101060000 -0500'' @ [dquote]
       @ '' channel='' @ [dquote] @ ''A'' @ [dquote] @ ''><title>News</title></programme></tv>''"

definition scenarioParsed :: ParsedTV where
  "scenarioParsed =
     \<lparr>tvChannel = [\<lparr>attrId = Some ''A'', displayName = DisplayText ''Alpha''\<rparr>,
                   \<lparr>attrId = Some ''B'', displayName = DisplayText ''Beta''\<rparr>],
      tvProgramme = [\<lparr>attrChannel = Some ''A''\<rparr>]\<rparr>"

definition scenarioLineup :: "LineupItem list" where
  "scenarioLineup =
     [\<lparr>lineupGuideNumber = ''A'', lineupGuideName = ''Alpha''\<rparr>,
      \<lparr>lineupGuideNumber = ''B'', lineupGuideName = ''Beta''\<rparr>,
      \<lparr>lineupGuideNumber = ''C'', lineupGuideName = ''Gamma''\<rparr>]"

definition scenarioOptions :: "string \<Rightarrow> StreamingDummyOptions" where
  "scenarioOptions durationText =
     \<lparr>duration = durationText, title = None, description = None, daysFilter = None\<rparr>"

section \<open>Properties of the merge\<close>

lemma mergeGuide_append:
  "\<exists>ext. mergeGuide g ps = g @ ext \<and> set ext \<subseteq> set ps \<and>
         (\<forall>q \<in> set ext. StartTime q \<notin> StartTime ` set g) \<and>
         (distinct (map StartTime g) \<longrightarrow> distinct (map StartTime (g @ ext)))"
proof (induction ps arbitrary: g)
  case Nil
  show ?case by simp
next
  case (Cons p ps)
  show ?case
  proof (cases "list_ex (\<lambda>q. StartTime q = StartTime p) g")
    case True
    from Cons.IH [of g] obtain ext where
      "mergeGuide g ps = g @ ext" "set ext \<subseteq> set ps"
      "\<forall>q \<in> set ext. StartTime q \<notin> StartTime ` set g"
      "distinct (map StartTime g) \<longrightarrow> distinct (map StartTime (g @ ext))"
      by blast
    with True show ?thesis by (intro exI [of _ ext]) auto
  next
    case False
    then have fresh: "StartTime p \<notin> StartTime ` set g"
      by (auto simp: list_ex_iff)
    from Cons.IH [of "g @ [p]"] obtain ext where e:
      "mergeGuide (g @ [p]) ps = (g @ [p]) @ ext" "set ext \<subseteq> set ps"
      "\<forall>q \<in> set ext. StartTime q \<notin> StartTime ` set (g @ [p])"
      "distinct (map StartTime (g @ [p])) \<longrightarrow> distinct (map StartTime ((g @ [p]) @ ext))"
      by blast
    have "mergeGuide g (p # ps) = g @ (p # ext)"
      using False e(1) by simp
    moreover have "set (p # ext) \<subseteq> set (p # ps)"
      using e(2) by auto
    moreover have "\<forall>q \<in> set (p # ext). StartTime q \<notin> StartTime ` set g"
      using fresh e(3) by auto
    moreover have "distinct (map StartTime g) \<longrightarrow> distinct (map StartTime (g @ (p # ext)))"
      using fresh e(4) by auto
    ultimately show ?thesis by blast
  qed
qed

lemma filter_known_append:
  assumes "\<forall>q \<in> set ext. StartTime q \<notin> StartTime ` set g"
  shows "filter (\<lambda>q. StartTime q \<in> StartTime ` set g) (g @ ext) = g"
proof -
  have "filter (\<lambda>q. StartTime q \<in> StartTime ` set g) g = g"
    by (rule filter_True) simp
  moreover have "filter (\<lambda>q. StartTime q \<in> StartTime ` set g) ext = []"
    using assms by (simp add: filter_empty_conv)
  ultimately show ?thesis by simp
qed

lemma extends_refl: "extends b b"
  by (simp add: extends_def)

lemma extends_mergeGuide: "extends ch (ch\<lparr>Guide := mergeGuide (Guide ch) ps\<rparr>)"
proof -
  from mergeGuide_append [of "Guide ch" ps] obtain ext where
    "mergeGuide (Guide ch) ps = Guide ch @ ext"
    "\<forall>q \<in> set ext. StartTime q \<notin> StartTime ` set (Guide ch)"
    by blast
  then show ?thesis
    by (simp add: extends_def filter_known_append)
qed

lemma extends_trans:
  assumes "extends a b" and "extends b c"
  shows "extends a c"
proof -
  from assms(1) obtain e1 where b: "Guide b = Guide a @ e1" and ab: "b\<lparr>Guide := Guide a\<rparr> = a"
    and f1: "filter (\<lambda>q. StartTime q \<in> StartTime ` set (Guide a)) (Guide b) = Guide a"
    by (auto simp: extends_def prefix_def)
  from assms(2) obtain e2 where c: "Guide c = Guide b @ e2" and bc: "c\<lparr>Guide := Guide b\<rparr> = b"
    and f2: "filter (\<lambda>q. StartTime q \<in> StartTime ` set (Guide b)) (Guide c) = Guide b"
    by (auto simp: extends_def prefix_def)
  have e2_new: "filter (\<lambda>q. StartTime q \<in> StartTime ` set (Guide b)) e2 = []"
    using f2 c by simp
  have "filter (\<lambda>q. StartTime q \<in> StartTime ` set (Guide a)) e2 = []"
    unfolding filter_empty_conv
  proof
    fix q assume q: "q \<in> set e2"
    then have "StartTime q \<notin> StartTime ` set (Guide b)"
      using e2_new by (simp add: filter_empty_conv)
    then show "StartTime q \<notin> StartTime ` set (Guide a)"
      using b by auto
  qed
  then have "filter (\<lambda>q. StartTime q \<in> StartTime ` set (Guide a)) (Guide c) = Guide a"
    using f1 c by simp
  moreover have "prefix (Guide a) (Guide c)"
    using b c by (simp add: prefix_def)
  moreover have "c\<lparr>Guide := Guide a\<rparr> = a"
  proof -
    have "c\<lparr>Guide := Guide a\<rparr> = (c\<lparr>Guide := Guide b\<rparr>)\<lparr>Guide := Guide a\<rparr>" by simp
    then show ?thesis using ab bc by simp
  qed
  ultimately show ?thesis by (simp add: extends_def)
qed

lemma mergeChannel_extends: "list_all2 extends base (mergeChannel base nc)"
  by (induction base) (auto simp: extends_refl extends_mergeGuide list_all2_refl)

lemma list_all2_extends_trans:
  "list_all2 extends xs ys \<Longrightarrow> list_all2 extends ys zs \<Longrightarrow> list_all2 extends xs zs"
  by (rule list_all2_trans [where ?P1.0 = extends and ?P2.0 = extends, OF extends_trans])

lemma foldl_mergeChannel_extends: "list_all2 extends base (foldl mergeChannel base new)"
proof (induction new arbitrary: base)
  case Nil
  show ?case by (simp add: list_all2_refl extends_refl)
next
  case (Cons nc new)
  show ?case
    using list_all2_extends_trans [OF mergeChannel_extends Cons.IH] by simp
qed

lemma mergeEPGData_extends: "list_all2 extends base (mergeEPGData base new)"
  by (simp add: mergeEPGData_def foldl_mergeChannel_extends)

lemma mergeWindows_extends: "list_all2 extends base (mergeWindows base ws)"
proof (induction ws arbitrary: base)
  case Nil
  show ?case by (simp add: list_all2_refl extends_refl)
next
  case (Cons w ws)
  show ?case
    using list_all2_extends_trans [OF mergeEPGData_extends Cons.IH, of base w]
    by (simp add: list_all2_refl extends_refl)
qed

lemma mergeChannel_invariant:
  "guide_invariant base \<Longrightarrow> guide_invariant (mergeChannel base nc)"
proof (induction base)
  case Nil
  then show ?case by simp
next
  case (Cons ch chs)
  from mergeGuide_append [of "Guide ch" "Guide nc"] Cons.prems
  have "distinct (map StartTime (mergeGuide (Guide ch) (Guide nc)))"
    by (auto simp: guide_invariant_def)
  with Cons show ?case by (auto simp: guide_invariant_def)
qed

lemma mergeEPGData_invariant:
  "guide_invariant base \<Longrightarrow> guide_invariant (mergeEPGData base new)"
  unfolding mergeEPGData_def
  by (induction new arbitrary: base) (simp_all add: mergeChannel_invariant)

lemma mergeWindows_invariant:
  "guide_invariant base \<Longrightarrow> guide_invariant (mergeWindows base ws)"
  by (induction ws arbitrary: base) (simp_all add: mergeEPGData_invariant)

text \<open>
  C7. Merging keeps the Guide invariant, and the first entry wins: when no channel of the
  base guide has two entries with the same \<open>StartTime\<close>, the same holds after any
  sequence of later windows has been merged in; and in every channel the entries of the
  merged guide whose \<open>StartTime\<close> occurred in the base are exactly the base's entries, in
  their order and with all their fields, so that a later entry with a \<open>StartTime\<close> already
  present is dropped whole.
\<close>

theorem merge_dedup_first_wins:
  assumes "guide_invariant base"
  shows "guide_invariant (mergeWindows base windows) \<and>
         list_all2 (\<lambda>b m. filter (\<lambda>q. StartTime q \<in> StartTime ` set (Guide b)) (Guide m) = Guide b)
           base (mergeWindows base windows)"
proof
  show "guide_invariant (mergeWindows base windows)"
    using assms by (rule mergeWindows_invariant)
  show "list_all2 (\<lambda>b m. filter (\<lambda>q. StartTime q \<in> StartTime ` set (Guide b)) (Guide m) = Guide b)
          base (mergeWindows base windows)"
    by (rule list_all2_mono [OF mergeWindows_extends]) (simp add: extends_def)
qed

theorem merge_dedup_first_wins_witness:
  "guide_invariant exampleBase \<and>
   guide_invariant (mergeWindows exampleBase [exampleWindow]) \<and>
   mergeWindows exampleBase [exampleWindow] =
     [exampleChannel ''2.1'' ''X'' [exampleProgramme 1000 ''Original'', exampleProgramme 2800 ''Next'']]"
proof -
  have inv: "guide_invariant exampleBase"
    by (simp add: guide_invariant_def exampleBase_def exampleChannel_def exampleProgramme_def)
  have run: "mergeWindows exampleBase [exampleWindow] =
     [exampleChannel ''2.1'' ''X'' [exampleProgramme 1000 ''Original'', exampleProgramme 2800 ''Next'']]"
    by (simp add: exampleBase_def exampleWindow_def exampleChannel_def exampleProgramme_def
        mergeEPGData_def)
  from merge_dedup_first_wins [OF inv, of "[exampleWindow]"] inv run show ?thesis
    by simp
qed

text \<open>
  C8. Merging a window never adds a channel: the merged guide has the base guide's
  channels, in the same order; each keeps every field other than \<open>Guide\<close>, and its
  \<open>Guide\<close> list begins with the base's list, so that programmes are only appended.
\<close>

theorem merge_frame:
  "map GuideNumber (mergeEPGData base newData) = map GuideNumber base \<and>
   list_all2 (\<lambda>b m. m\<lparr>Guide := Guide b\<rparr> = b \<and> prefix (Guide b) (Guide m))
     base (mergeEPGData base newData)"
proof
  have ext: "list_all2 extends base (mergeEPGData base newData)"
    by (rule mergeEPGData_extends)
  have "list_all2 (\<lambda>b m. GuideNumber m = GuideNumber b) base (mergeEPGData base newData)"
  proof (rule list_all2_mono [OF ext])
    fix b m assume "extends b m"
    then have "m\<lparr>Guide := Guide b\<rparr> = b" by (simp add: extends_def)
    then have "GuideNumber (m\<lparr>Guide := Guide b\<rparr>) = GuideNumber b" by simp
    then show "GuideNumber m = GuideNumber b" by simp
  qed
  then show "map GuideNumber (mergeEPGData base newData) = map GuideNumber base"
    by (induction rule: list_all2_induct) simp_all
  show "list_all2 (\<lambda>b m. m\<lparr>Guide := Guide b\<rparr> = b \<and> prefix (Guide b) (Guide m))
          base (mergeEPGData base newData)"
    by (rule list_all2_mono [OF ext]) (simp add: extends_def)
qed

theorem merge_frame_witness:
  "list_ex (\<lambda>c. GuideNumber c \<notin> set (map GuideNumber exampleBase)) exampleWindow \<and>
   map GuideNumber (mergeEPGData exampleBase exampleWindow) = [''2.1''] \<and>
   list_all2 (\<lambda>b m. m\<lparr>Guide := Guide b\<rparr> = b \<and> prefix (Guide b) (Guide m))
     exampleBase (mergeEPGData exampleBase exampleWindow)"
proof -
  have "list_ex (\<lambda>c. GuideNumber c \<notin> set (map GuideNumber exampleBase)) exampleWindow"
    by (simp add: exampleBase_def exampleWindow_def exampleChannel_def)
  moreover have "map GuideNumber exampleBase = [''2.1'']"
    by (simp add: exampleBase_def exampleChannel_def)
  ultimately show ?thesis
    using merge_frame [of exampleBase exampleWindow] by simp
qed

section \<open>Properties of duration parsing\<close>

lemma isDigit_simps [simp]:
  "isDigit (CHR ''0'')" "isDigit (CHR ''1'')" "isDigit (CHR ''2'')" "isDigit (CHR ''3'')"
  "isDigit (CHR ''4'')" "isDigit (CHR ''5'')" "isDigit (CHR ''6'')" "isDigit (CHR ''7'')"
  "isDigit (CHR ''8'')" "isDigit (CHR ''9'')"
  by (simp_all add: isDigit_def)

text \<open>
  C9. \<^verbatim>\<open>parseDuration\<close> maps "30min" to half an hour, "2hr" to two hours, "true" to one
  hour, "0.2" to the minimum of half an hour and "20hr" to the maximum of twelve hours.
\<close>

theorem parseDuration_examples:
  "parseDuration ''30min'' = 1 / 2 \<and> parseDuration ''2hr'' = 2 \<and> parseDuration ''true'' = 1 \<and>
   parseDuration ''0.2'' = 1 / 2 \<and> parseDuration ''20hr'' = 12"
  by (simp add: parseDuration_def toLowerCase_def isUpper_def durationMatch_def isDigit_def
      unitAlternatives_def parseFloat_def digitsValue_def digitValue_def)

section \<open>Properties of the streaming date filter\<close>

subsection \<open>Slices and searches\<close>

lemma sliceFrom_nat: "sliceFrom s (int p) = drop p s"
  by (simp add: sliceFrom_def sliceIndex_def min_def)

lemma slice_nat: "slice s (int a) (int b) = take (b - a) (drop a s)"
  by (simp add: slice_def sliceIndex_def Let_def min_def)

lemma slice_from_0: "slice s 0 (int b) = take b s"
  using slice_nat [of s 0 b] by simp

lemma slice_nat_Suc: "slice s (int a) (int b + 1) = take (Suc b - a) (drop a s)"
  using slice_nat [of s a "Suc b"] by (simp add: add.commute)

lemma slice_nat_12: "slice s (int a) (int b + 12) = take (b + 12 - a) (drop a s)"
  using slice_nat [of s a "b + 12"] by simp

lemma nat_keep_1000: "nat (max (int n - 1000) 0) = n - 1000"
  by arith

lemma slice_keep_1000: "slice s 0 (- 1000) = take (length s - 1000) s"
  by (simp add: slice_def sliceIndex_def Let_def nat_keep_1000)

lemma sliceFrom_keep_1000: "sliceFrom s (- 1000) = drop (length s - 1000) s"
  by (simp add: sliceFrom_def sliceIndex_def nat_keep_1000)




subsection \<open>One pass of the loop\<close>

lemma scanLoop_Break:
  "loopBody clock cutoff st pos out = Break st' pos' out'
     \<Longrightarrow> scanLoop clock cutoff st pos out = (st', pos', out')"
  by (subst scanLoop.simps) simp

lemma scanLoop_Continue:
  "loopBody clock cutoff st pos out = Continue st' pos' out'
     \<Longrightarrow> scanLoop clock cutoff st pos out = scanLoop clock cutoff st' pos' out'"
  by (subst scanLoop.simps) simp

text \<open>
  A pass that starts outside a programme, and finds a complete programme element from
  \<open>i\<close> to \<open>e + 12\<close> in the buffer, adds the text before the element to the output and
  the element when \<open>keepProgramme\<close> holds of the start attribute of its opening tag.
\<close>

lemma loopBody_complete:
  assumes "\<not> insideProgramme st"
    and "indexOf (buffer st) ''<programme'' pos = Some i"
    and "indexOf (buffer st) ''>'' i = Some j"
    and "indexOf (buffer st) ''</programme>'' i = Some e"
  shows "loopBody clock cutoff st pos out =
           Continue (st\<lparr>insideProgramme := False, currentProgramme := [], programmeStart := []\<rparr>)
             (e + 12)
             (out @ take (i - pos) (drop pos (buffer st))
                @ (if keepProgramme clock cutoff
                        (case startMatch (take (Suc j - i) (drop i (buffer st))) of
                           None \<Rightarrow> [] | Some v \<Rightarrow> v)
                   then take (e + 12 - i) (drop i (buffer st)) else []))"
  using assms
  by (simp add: loopBody_def programmeBody_def Let_def slice_nat slice_nat_Suc slice_nat_12
      split: option.splits)

subsection \<open>No filtering requested\<close>

text \<open>
  C10. With \<^verbatim>\<open>days\<close> equal to 0, as with \<^verbatim>\<open>days\<close> absent, the output of
  \<^verbatim>\<open>streamFilterEPG\<close> is the input, byte for byte: the file is copied, no cutoff is
  computed and no programme is dropped.
\<close>

theorem days_zero_is_copy:
  "streamFilterEPG clock input \<lparr>days = Some 0\<rparr> = concat input \<and>
   streamFilterEPG clock input \<lparr>days = None\<rparr> = concat input"
  by (simp add: streamFilterEPG_def)

subsection \<open>The cutoff and the boundary\<close>

lemma LocalTime_UTC: "LocalTime clock (UTC clock t) = t"
  by (simp add: LocalTime_def UTC_def)

lemma Day_of_days: "Day (MakeDate d 0) = d" "TimeWithinDay (MakeDate d 0) = 0"
  by (simp_all add: Day_def TimeWithinDay_def MakeDate_def msPerDay_def)

text \<open>
  The cutoff is local midnight of the day of the invocation plus \<open>n\<close> days, when both
  dates lie in the range of \<^verbatim>\<open>Date\<close>.
\<close>

lemma cutoffTimestamp_in_range:
  assumes "\<bar>UTC clock (Day (LocalTime clock (now clock)) * msPerDay)\<bar> \<le> 8640000000000000"
    and "\<bar>UTC clock ((Day (LocalTime clock (now clock)) + n) * msPerDay)\<bar> \<le> 8640000000000000"
  shows "cutoffTimestamp clock n = Some (UTC clock ((Day (LocalTime clock (now clock)) + n) * msPerDay))"
proof -
  have m: "setHoursMidnight clock (now clock) = UTC clock (Day (LocalTime clock (now clock)) * msPerDay)"
    by (simp add: setHoursMidnight_def MakeTime_def MakeDate_def)
  have a: "addDays clock (UTC clock (Day (LocalTime clock (now clock)) * msPerDay)) n
      = UTC clock ((Day (LocalTime clock (now clock)) + n) * msPerDay)"
    using Day_of_days [of "Day (LocalTime clock (now clock))"]
    by (simp add: addDays_def LocalTime_UTC MakeDate_def)
  show ?thesis
    using assms by (simp add: cutoffTimestamp_def m a TimeClip_def)
qed

lemma startMatch_nonempty: "startMatch s = Some v \<Longrightarrow> v \<noteq> []"
  by (induction s) (auto split: if_splits)

text \<open>
  A document delivered in one chunk whose only programme element runs from \<open>i\<close> to
  \<open>e + 12\<close> and is followed by at most 1000 characters: the output is the text
  before the element, the element when its start is before the cutoff, and the text
  after it.
\<close>

lemma single_programme_document:
  assumes "n \<noteq> 0"
    and "indexOf doc ''<programme'' 0 = Some i"
    and "indexOf doc ''>'' i = Some j"
    and "startMatch (slice doc (int i) (int j + 1)) = Some start"
    and "programmeDate clock start = Some t"
    and "indexOf doc ''</programme>'' i = Some e"
    and "indexOf doc ''<programme'' (e + 12) = None"
    and "length doc \<le> e + 12 + 1000"
  shows "streamFilterEPG clock [doc] \<lparr>days = Some n\<rparr> =
           take i doc
             @ (if (case cutoffTimestamp clock n of None \<Rightarrow> False | Some c \<Rightarrow> t < c)
                then take (e + 12 - i) (drop i doc) else [])
             @ drop (e + 12) doc"
proof -
  define st0 where "st0 = initialState\<lparr>buffer := buffer initialState @ doc\<rparr>"
  define cutoff where "cutoff = cutoffTimestamp clock n"
  define st1 where
    "st1 = st0\<lparr>insideProgramme := False, currentProgramme := [], programmeStart := []\<rparr>"
  define out1 where
    "out1 = take i doc @ (if (case cutoff of None \<Rightarrow> False | Some c \<Rightarrow> t < c)
                          then take (e + 12 - i) (drop i doc) else [])"
  have buf: "buffer st0 = doc" and outside: "\<not> insideProgramme st0"
    by (simp_all add: st0_def initialState_def)
  have openTag: "startMatch (take (Suc j - i) (drop i doc)) = Some start"
    using assms(4) by (simp add: slice_nat_Suc)
  have keep: "keepProgramme clock cutoff start \<longleftrightarrow> (case cutoff of None \<Rightarrow> False | Some c \<Rightarrow> t < c)"
    using startMatch_nonempty [OF assms(4)] assms(5)
    by (simp add: keepProgramme_def split: option.splits)
  have step1: "loopBody clock cutoff st0 0 [] = Continue st1 (e + 12) out1"
    using loopBody_complete [of st0 0 i j e clock cutoff "[]"] assms(2,3,6) outside openTag keep
    by (simp add: buf st1_def out1_def)
  have step2: "loopBody clock cutoff st1 (e + 12) out1 = Break st1 (e + 12) out1"
    using assms(7,8) by (simp add: loopBody_def st1_def buf)
  have "scanLoop clock cutoff st0 0 [] = (st1, e + 12, out1)"
    using scanLoop_Continue [OF step1] scanLoop_Break [OF step2] by simp
  then have "pipeline clock cutoff initialState [doc] = out1 @ drop (e + 12) doc"
    by (simp add: transform_def st0_def [symmetric] sliceFrom_nat flush_def)
      (simp add: st1_def buf)
  with assms(1) show ?thesis
    by (simp add: streamFilterEPG_def cutoff_def out1_def)
qed

text \<open>
  Three days from the example clock the cutoff is midnight of 4 January. Of two
  documents with one programme each, the one whose programme starts at that midnight
  loses it and the one whose programme starts one second earlier keeps it.
\<close>

lemma boundary_pair_three_days:
  "cutoffTimestamp exampleClock 3 = Some 1704344400000 \<and>
   programmeDate exampleClock ''20240104000000 -0500'' = Some 1704344400000 \<and>
   programmeDate exampleClock ''20240103235959 -0500'' = Some 1704344399000 \<and>
   streamFilterEPG exampleClock [documentWithStart ''20240104000000 -0500''] \<lparr>days = Some 3\<rparr>
     = ''<tv></tv>'' \<and>
   streamFilterEPG exampleClock [documentWithStart ''20240103235959 -0500''] \<lparr>days = Some 3\<rparr>
     = documentWithStart ''20240103235959 -0500''"
proof -
  have "cutoffTimestamp exampleClock 3 = Some 1704344400000" by code_simp
  moreover have "programmeDate exampleClock ''20240104000000 -0500'' = Some 1704344400000"
    by code_simp
  moreover have "programmeDate exampleClock ''20240103235959 -0500'' = Some 1704344399000"
    by code_simp
  moreover have "streamFilterEPG exampleClock [documentWithStart ''20240104000000 -0500'']
      \<lparr>days = Some 3\<rparr> = ''<tv></tv>''"
    by code_simp
  moreover have "streamFilterEPG exampleClock [documentWithStart ''20240103235959 -0500'']
      \<lparr>days = Some 3\<rparr> = documentWithStart ''20240103235959 -0500''"
    by code_simp
  ultimately show ?thesis by blast
qed

subsection \<open>Chunk boundaries\<close>

lemma pipeline_feed:
  "pipeline clock cutoff st (front @ back) =
     snd (feed clock cutoff st front) @ pipeline clock cutoff (fst (feed clock cutoff st front)) back"
  by (induction front arbitrary: st) (auto split: prod.splits)

lemma byteChunks_append: "byteChunks (xs @ ys) = byteChunks xs @ byteChunks ys"
  by (simp add: byteChunks_def)

lemma findFrom_marker_run: "findFrom ''<programme'' (replicate m (CHR ''x'')) i = None"
  by (induction m arbitrary: i) simp_all

lemma indexOf_marker_run: "indexOf (replicate m (CHR ''x'')) ''<programme'' p = None"
  by (simp add: indexOf_def findFrom_marker_run)

text \<open>
  Text without a marker, one character per chunk: the buffer never holds more than 1000
  characters, the rest is pushed, and the flush pushes the buffer.
\<close>

lemma transform_run_byte:
  assumes "\<not> insideProgramme st" and "buffer st = replicate k (CHR ''x'')"
  shows "transform clock cutoff st [CHR ''x''] =
           (st\<lparr>buffer := replicate (Suc k - (Suc k - 1000)) (CHR ''x'')\<rparr>,
            replicate (Suc k - 1000) (CHR ''x''))"
proof -
  define b where "b = replicate (Suc k) (CHR ''x'')"
  let ?st0 = "st\<lparr>buffer := b\<rparr>"
  have bb: "buffer st @ [CHR ''x''] = b"
    using assms(2) by (simp add: b_def replicate_append_same)
  have none: "indexOf b ''<programme'' 0 = None"
    unfolding b_def by (rule indexOf_marker_run)
  have len: "length b = Suc k"
    by (simp add: b_def)
  have tk: "\<And>m. m \<le> Suc k \<Longrightarrow> take m b = replicate m (CHR ''x'')"
    and dr: "\<And>m. drop m b = replicate (Suc k - m) (CHR ''x'')"
    unfolding b_def by (simp_all add: min_def del: replicate.simps)
  have inside: "\<not> insideProgramme ?st0" and buf: "buffer ?st0 = b"
    using assms(1) by simp_all
  show ?thesis
  proof (cases "Suc k \<le> 1000")
    case True
    then have "loopBody clock cutoff ?st0 0 [] = Break ?st0 0 []"
      using inside by (simp add: loopBody_def none len)
    from scanLoop_Break [OF this] True show ?thesis
      by (simp add: transform_def sliceFrom_nat bb) (simp add: b_def)
  next
    case False
    then have "loopBody clock cutoff ?st0 0 [] =
        Break (?st0\<lparr>buffer := sliceFrom (buffer ?st0) (- 1000)\<rparr>) 0
          ([] @ slice (buffer ?st0) 0 (- 1000))"
      using inside by (simp add: loopBody_def none len)
    from scanLoop_Break [OF this] show ?thesis
      by (simp add: transform_def sliceFrom_nat slice_keep_1000 sliceFrom_keep_1000 bb len tk dr)
  qed
qed

lemma pipeline_run_bytes:
  assumes "\<not> insideProgramme st" and "buffer st = replicate k (CHR ''x'')"
  shows "pipeline clock cutoff st (byteChunks (replicate n (CHR ''x''))) = replicate (k + n) (CHR ''x'')"
  using assms
proof (induction n arbitrary: st k)
  case 0
  then show ?case by (simp add: byteChunks_def flush_def)
next
  case (Suc n)
  let ?st' = "st\<lparr>buffer := replicate (Suc k - (Suc k - 1000)) (CHR ''x'')\<rparr>"
  have split: "byteChunks (replicate (Suc n) (CHR ''x'')) = [CHR ''x''] # byteChunks (replicate n (CHR ''x''))"
    by (simp add: byteChunks_def)
  have "pipeline clock cutoff st (byteChunks (replicate (Suc n) (CHR ''x'')))
          = replicate (Suc k - 1000) (CHR ''x'')
              @ pipeline clock cutoff ?st' (byteChunks (replicate n (CHR ''x'')))"
    by (simp only: split pipeline.simps transform_run_byte [OF Suc.prems] prod.case)
  also have "pipeline clock cutoff ?st' (byteChunks (replicate n (CHR ''x'')))
          = replicate (Suc k - (Suc k - 1000) + n) (CHR ''x'')"
    using Suc.prems(1) by (intro Suc.IH) simp_all
  also have "replicate (Suc k - 1000) (CHR ''x'') @ replicate (Suc k - (Suc k - 1000) + n) (CHR ''x'')
          = replicate (k + Suc n) (CHR ''x'')"
    by (simp flip: replicate_add del: replicate.simps)
  finally show ?case .
qed

lemma bytes_of_long_tail:
  "streamFilterEPG exampleClock (byteChunks longTailDocument) \<lparr>days = Some 3\<rparr> = longTailDocument"
proof -
  let ?cutoff = "cutoffTimestamp exampleClock 3"
  have element: "feed exampleClock ?cutoff initialState (byteChunks ''<programme></programme>'')
                   = (initialState, ''<programme></programme>'')"
    by code_simp
  have "pipeline exampleClock ?cutoff initialState (byteChunks (replicate 1001 (CHR ''x'')))
          = replicate (0 + 1001) (CHR ''x'')"
    by (rule pipeline_run_bytes) (simp_all add: initialState_def)
  then have "pipeline exampleClock ?cutoff initialState (byteChunks longTailDocument) = longTailDocument"
    unfolding longTailDocument_def byteChunks_append pipeline_feed element
    by (simp)
  then show ?thesis
    by (simp add: streamFilterEPG_def)
qed

lemma single_of_long_tail:
  "streamFilterEPG exampleClock (singleChunk longTailDocument) \<lparr>days = Some 3\<rparr>
     = ''<programme></programme>'' @ ''<programme></programme>'' @ replicate 978 (CHR ''x'')"
proof -
  define cutoff where "cutoff = cutoffTimestamp exampleClock 3"
  define tail where "tail = replicate 1001 (CHR ''x'')"
  define doc where "doc = ''<programme></programme>'' @ tail"
  define st0 where "st0 = initialState\<lparr>buffer := buffer initialState @ doc\<rparr>"
  define st1 where
    "st1 = st0\<lparr>insideProgramme := False, currentProgramme := [], programmeStart := []\<rparr>"
  have buf: "buffer st0 = doc" and outside: "\<not> insideProgramme st0"
    by (simp_all add: st0_def initialState_def)
  have len: "length doc = 1024"
    by (simp add: doc_def tail_def)
  have i: "indexOf doc ''<programme'' 0 = Some 0"
    and j: "indexOf doc ''>'' 0 = Some 10"
    and e: "indexOf doc ''</programme>'' 0 = Some 11"
    by (simp_all add: doc_def indexOf_def)
  have tag: "startMatch (take (Suc 10 - 0) (drop 0 doc)) = None"
    by (simp add: doc_def)
  have rest: "indexOf doc ''<programme'' 23 = None"
    by (simp add: doc_def indexOf_def tail_def findFrom_marker_run)
  have step1: "loopBody exampleClock cutoff st0 0 [] = Continue st1 23 ''<programme></programme>''"
    using loopBody_complete [of st0 0 0 10 11 exampleClock cutoff "[]"] i j e outside tag
    by (simp add: buf st1_def keepProgramme_def) (simp add: doc_def)
  have step2: "loopBody exampleClock cutoff st1 23 ''<programme></programme>'' =
      Break (st1\<lparr>buffer := sliceFrom doc (- 1000)\<rparr>) 23
        (''<programme></programme>'' @ slice doc 0 (- 1000))"
    using rest len by (simp add: loopBody_def st1_def buf)
  have kept: "slice doc 0 (- 1000) = ''<programme></programme>x''"
    by (simp add: slice_keep_1000 len) (simp add: doc_def tail_def)
  have dropped: "drop 23 (sliceFrom doc (- 1000)) = replicate 977 (CHR ''x'')"
    by (simp add: sliceFrom_keep_1000 len) (simp add: doc_def tail_def)
  have "scanLoop exampleClock cutoff st0 0 [] =
      (st1\<lparr>buffer := sliceFrom doc (- 1000)\<rparr>, 23,
       ''<programme></programme>'' @ slice doc 0 (- 1000))"
    using scanLoop_Continue [OF step1] scanLoop_Break [OF step2] by simp
  then have "pipeline exampleClock cutoff initialState [doc] =
      ''<programme></programme>'' @ ''<programme></programme>x'' @ replicate 977 (CHR ''x'')"
    by (simp add: transform_def st0_def [symmetric] sliceFrom_nat flush_def kept dropped)
  moreover have "''<programme></programme>x'' @ replicate 977 (CHR ''x'')
      = ''<programme></programme>'' @ replicate 978 (CHR ''x'')"
    using replicate_Suc [of 977 "CHR ''x''"] by simp
  ultimately show ?thesis
    by (simp add: streamFilterEPG_def singleChunk_def longTailDocument_def doc_def tail_def
        cutoff_def)
qed

text \<open>
  C1 fails on the code. When a programme has been completed in a chunk and more than
  1000 characters without a marker follow it in the buffer, the loop pushes
  \<^verbatim>\<open>buffer.slice(0, -1000)\<close>, which starts at 0 and not at \<^verbatim>\<open>pos\<close>, and afterwards cuts
  the kept 1000 characters at the old \<^verbatim>\<open>pos\<close>. Delivered as one chunk, the document
  below comes out with its programme twice and 23 characters of its tail missing;
  delivered one character at a time it comes out unchanged.
\<close>

theorem chunk_invariance_fails:
  "streamFilterEPG exampleClock (byteChunks longTailDocument) \<lparr>days = Some 3\<rparr> = longTailDocument \<and>
   streamFilterEPG exampleClock (singleChunk longTailDocument) \<lparr>days = Some 3\<rparr>
     = ''<programme></programme>'' @ ''<programme></programme>'' @ replicate 978 (CHR ''x'') \<and>
   streamFilterEPG exampleClock (singleChunk longTailDocument) \<lparr>days = Some 3\<rparr>
     \<noteq> streamFilterEPG exampleClock (byteChunks longTailDocument) \<lparr>days = Some 3\<rparr>"
proof -
  have "replicate 1001 (CHR ''x'') = CHR ''x'' # replicate 1000 (CHR ''x'')"
    using replicate_Suc [of 1000 "CHR ''x''"] by simp
  then have "''<programme></programme>'' @ replicate 978 (CHR ''x'') \<noteq> replicate 1001 (CHR ''x'')"
    by simp
  then show ?thesis
    unfolding bytes_of_long_tail single_of_long_tail
    by (simp add: longTailDocument_def)
qed

subsection \<open>The boundary, and the same slip\<close>

lemma findFrom_marker_tail:
  "findFrom ''<programme'' (replicate m (CHR ''x'') @ ''</tv>'') i = None"
  by (induction m arbitrary: i) simp_all

text \<open>
  C4 fails on the code, through the defect of C1. The cutoff is local midnight plus
  \<open>n\<close> days and the comparison is strict, but a programme that the comparison has
  refused is written all the same when more than 1000 characters without a marker
  follow it in the buffer: \<^verbatim>\<open>buffer.slice(0, -1000)\<close> starts at 0 and holds the
  programme. With a limit of three days the cutoff is midnight of 4 January; the
  programme of the document below starts on 10 January, and delivered as one chunk the
  document comes out with that programme, with \<^verbatim>\<open><tv>\<close> twice, and with 89 of the 1100
  characters after the programme missing.
\<close>

theorem late_programme_is_written:
  "cutoffTimestamp exampleClock 3 = Some 1704344400000 \<and>
   programmeDate exampleClock ''20240110000000 -0500'' = Some 1704862800000 \<and>
   streamFilterEPG exampleClock [lateProgrammeDocument] \<lparr>days = Some 3\<rparr>
     = (''<tv>'' @ ''<tv>'' @ programmeWithStart ''20240110000000 -0500'')
         @ replicate 1011 (CHR ''x'') @ ''</tv>''"
proof -
  define cutoff where "cutoff = cutoffTimestamp exampleClock 3"
  define front where "front = ''<tv>'' @ programmeWithStart ''20240110000000 -0500''"
  define tail where "tail = replicate 1100 (CHR ''x'') @ ''</tv>''"
  define doc where "doc = front @ tail"
  define st0 where "st0 = initialState\<lparr>buffer := buffer initialState @ doc\<rparr>"
  define st1 where
    "st1 = st0\<lparr>insideProgramme := False, currentProgramme := [], programmeStart := []\<rparr>"
  have buf: "buffer st0 = doc" and outside: "\<not> insideProgramme st0"
    by (simp_all add: st0_def initialState_def)
  have lenf: "length front = 89"
    by (simp add: front_def programmeWithStart_def)
  have len: "length doc = 1194"
    by (simp add: doc_def lenf tail_def)
  have front: "front = ''<tv>'' @ programmeWithStart ''20240110000000 -0500''"
    by (simp add: front_def)
  have i: "indexOf doc ''<programme'' 0 = Some 4"
    and j: "indexOf doc ''>'' 4 = Some 57"
    and e: "indexOf doc ''</programme>'' 4 = Some 77"
    by (simp_all add: doc_def front_def programmeWithStart_def indexOf_def)
  have tag: "startMatch (take (Suc 57 - 4) (drop 4 doc)) = Some ''20240110000000 -0500''"
    by (simp add: doc_def front_def programmeWithStart_def)
  have limit: "cutoffTimestamp exampleClock 3 = Some 1704344400000"
    by code_simp
  have date: "programmeDate exampleClock ''20240110000000 -0500'' = Some 1704862800000"
    by code_simp
  have late: "\<not> keepProgramme exampleClock cutoff ''20240110000000 -0500''"
    by (simp add: keepProgramme_def cutoff_def limit date)
  have rest: "indexOf doc ''<programme'' 89 = None"
    using lenf by (simp add: doc_def indexOf_def tail_def findFrom_marker_tail)
  have step1: "loopBody exampleClock cutoff st0 0 [] = Continue st1 89 ''<tv>''"
    using loopBody_complete [of st0 0 4 57 77 exampleClock cutoff "[]"] i j e outside tag late
    by (simp add: buf st1_def) (simp add: doc_def front_def)
  have step2: "loopBody exampleClock cutoff st1 89 ''<tv>'' =
      Break (st1\<lparr>buffer := sliceFrom doc (- 1000)\<rparr>) 89 (''<tv>'' @ slice doc 0 (- 1000))"
    using rest len by (simp add: loopBody_def st1_def buf)
  have kept: "slice doc 0 (- 1000) = front @ replicate 105 (CHR ''x'')"
    using lenf by (simp add: slice_keep_1000 len) (simp add: doc_def tail_def)
  have dropped: "drop 89 (sliceFrom doc (- 1000)) = replicate 906 (CHR ''x'') @ ''</tv>''"
    using lenf by (simp add: sliceFrom_keep_1000 len) (simp add: doc_def tail_def)
  have "scanLoop exampleClock cutoff st0 0 [] =
      (st1\<lparr>buffer := sliceFrom doc (- 1000)\<rparr>, 89, ''<tv>'' @ slice doc 0 (- 1000))"
    using scanLoop_Continue [OF step1] scanLoop_Break [OF step2] by simp
  then have "pipeline exampleClock cutoff initialState [doc] =
      ''<tv>'' @ (front @ replicate 105 (CHR ''x'')) @ replicate 906 (CHR ''x'') @ ''</tv>''"
    by (simp add: transform_def st0_def [symmetric] sliceFrom_nat flush_def kept dropped)
  moreover have "replicate 105 (CHR ''x'') @ replicate 906 (CHR ''x'') = replicate 1011 (CHR ''x'')"
    by (simp flip: replicate_add)
  ultimately have "pipeline exampleClock cutoff initialState [doc] =
      (''<tv>'' @ front) @ replicate 1011 (CHR ''x'') @ ''</tv>''"
    by simp
  then have "streamFilterEPG exampleClock [lateProgrammeDocument] \<lparr>days = Some 3\<rparr>
     = (''<tv>'' @ ''<tv>'' @ programmeWithStart ''20240110000000 -0500'')
         @ replicate 1011 (CHR ''x'') @ ''</tv>''"
    by (simp add: streamFilterEPG_def lateProgrammeDocument_def doc_def tail_def front cutoff_def)
  with limit date show ?thesis
    by blast
qed
section \<open>Properties of the placeholder generator and the injector\<close>

subsection \<open>A loop that does not advance\<close>

lemma dummyLoop_Some_advances:
  assumes "dummyLoop clock channel d t ds endDate cur = Some y"
  shows "\<not> (cur < endDate \<and> setHours clock cur (real_of_int (getHours clock cur) + d) = cur)"
proof (rule dummyLoop.raw_induct [where P = "\<lambda>clock channel d t ds endDate cur y.
    \<not> (cur < endDate \<and> setHours clock cur (real_of_int (getHours clock cur) + d) = cur)",
    OF _ assms], goal_cases)
  case (1 f clock channel d t ds endDate cur y)
  show ?case
  proof
    assume stuck: "cur < endDate \<and> setHours clock cur (real_of_int (getHours clock cur) + d) = cur"
    with 1(2) obtain later where "f clock channel d t ds endDate cur = Some later"
      by (auto simp: Let_def split: bind_splits)
    from 1(1) [OF this] stuck show False by simp
  qed
qed

lemma dummyLoop_stuck:
  "cur < endDate \<Longrightarrow> setHours clock cur (real_of_int (getHours clock cur) + d) = cur
     \<Longrightarrow> dummyLoop clock channel d t ds endDate cur = None"
  using dummyLoop_Some_advances [of clock channel d t ds endDate cur]
  by (cases "dummyLoop clock channel d t ds endDate cur") auto

subsection \<open>What setHours adds\<close>

text \<open>
  The fields of a local time make up the time again, so \<^verbatim>\<open>setHours(getHours() + d)\<close>
  moves a date by the whole hours of \<open>d\<close>: the fraction of \<open>d\<close> is lost.
\<close>

lemma time_fields:
  "MakeDate (Day x) (MakeTime (HourFromTime x) (MinFromTime x) (SecFromTime x) (msFromTime x)) = x"
proof -
  have s: "x mod 60000 = 1000 * (x div 1000 mod 60) + x mod 1000"
    using zmod_zmult2_eq [of 60 x 1000] by simp
  have m: "x mod 3600000 = 60000 * (x div 60000 mod 60) + x mod 60000"
    using zmod_zmult2_eq [of 60 x 60000] by simp
  have h: "x mod 86400000 = 3600000 * (x div 3600000 mod 24) + x mod 3600000"
    using zmod_zmult2_eq [of 24 x 3600000] by simp
  have d: "x = 86400000 * (x div 86400000) + x mod 86400000"
    by simp
  show ?thesis
    unfolding MakeDate_def MakeTime_def Day_def HourFromTime_def MinFromTime_def SecFromTime_def
      msFromTime_def msPerDay_def msPerHour_def msPerMinute_def msPerSecond_def
    using s m h d by linarith
qed

lemma setHours_adds_floor:
  assumes "0 \<le> d"
  shows "setHours clock t (real_of_int (getHours clock t) + d) = t + \<lfloor>d\<rfloor> * msPerHour"
proof -
  let ?x = "LocalTime clock t"
  have "0 \<le> HourFromTime ?x"
    by (simp add: HourFromTime_def)
  then have "ToIntegerOrInfinity (real_of_int (HourFromTime ?x) + d) = HourFromTime ?x + \<lfloor>d\<rfloor>"
    using assms by (simp add: ToIntegerOrInfinity_def)
  moreover have "MakeDate (Day ?x) (MakeTime (HourFromTime ?x + \<lfloor>d\<rfloor>) (MinFromTime ?x) (SecFromTime ?x) (msFromTime ?x))
      = ?x + \<lfloor>d\<rfloor> * msPerHour"
    using time_fields [of ?x] by (simp add: MakeDate_def MakeTime_def algebra_simps)
  ultimately show ?thesis
    by (simp add: setHours_def getHours_def Let_def) (simp add: UTC_def LocalTime_def)
qed

lemma dummyLoop_blocks:
  assumes "1 \<le> d"
  shows "dummyLoop clock ch d t ds endDate cur =
    Some (map (\<lambda>b. programmeXML clock ch t ds (cur + int b * (\<lfloor>d\<rfloor> * msPerHour))
                      (cur + int (Suc b) * (\<lfloor>d\<rfloor> * msPerHour)))
            [0..<nat ((endDate - cur + \<lfloor>d\<rfloor> * msPerHour - 1) div (\<lfloor>d\<rfloor> * msPerHour))])"
proof -
  define K where "K = \<lfloor>d\<rfloor> * msPerHour"
  have K: "0 < K"
    using assms by (simp add: K_def msPerHour_def)
  have next_time: "\<And>cur. setHours clock cur (real_of_int (getHours clock cur) + d) = cur + K"
    using setHours_adds_floor [of d] assms by (simp add: K_def)
  have "dummyLoop clock ch d t ds endDate cur =
    Some (map (\<lambda>b. programmeXML clock ch t ds (cur + int b * K) (cur + int (Suc b) * K))
            [0..<nat ((endDate - cur + K - 1) div K)])"
  proof (induction "nat (endDate - cur)" arbitrary: cur rule: less_induct)
    case less
    show ?case
    proof (cases "cur < endDate")
      case False
      then have "(endDate - cur + K - 1) div K \<le> (K - 1) div K"
        using K by (intro zdiv_mono1) simp_all
      moreover have "(K - 1) div K = 0"
        using K by simp
      ultimately have "(endDate - cur + K - 1) div K \<le> 0"
        by simp
      with False show ?thesis
        by (subst dummyLoop.simps) simp
    next
      case True
      have count: "nat ((endDate - cur + K - 1) div K) = Suc (nat ((endDate - (cur + K) + K - 1) div K))"
      proof -
        have "(endDate - cur + K - 1) div K = (endDate - cur - 1) div K + 1"
          using K div_add_self2 [of K "endDate - cur - 1"] by (simp add: algebra_simps)
        moreover have "0 \<le> (endDate - cur - 1) div K"
          using True K by (simp add: pos_imp_zdiv_nonneg_iff)
        ultimately show ?thesis by (simp add: algebra_simps)
      qed
      have "nat (endDate - (cur + K)) < nat (endDate - cur)"
        using True K by simp
      from less [OF this]
      have later: "dummyLoop clock ch d t ds endDate (cur + K) =
        Some (map (\<lambda>b. programmeXML clock ch t ds (cur + K + int b * K) (cur + K + int (Suc b) * K))
            [0..<nat ((endDate - (cur + K) + K - 1) div K)])" .
      have same: "(\<lambda>b. programmeXML clock ch t ds (cur + K + int b * K) (cur + K + int (Suc b) * K))
         = (\<lambda>b. programmeXML clock ch t ds (cur + int (Suc b) * K) (cur + int (Suc (Suc b)) * K))"
        by (simp add: algebra_simps)
      have "dummyLoop clock ch d t ds endDate cur =
          Option.bind (dummyLoop clock ch d t ds endDate (cur + K))
            (\<lambda>later. Some (programmeXML clock ch t ds cur (cur + K) # later))"
        using True by (subst dummyLoop.simps) (simp add: next_time Let_def)
      also have "\<dots> = Some (programmeXML clock ch t ds cur (cur + K)
          # map (\<lambda>b. programmeXML clock ch t ds (cur + int (Suc b) * K) (cur + int (Suc (Suc b)) * K))
              [0..<nat ((endDate - (cur + K) + K - 1) div K)])"
        by (simp only: later same bind.simps)
      also have "\<dots> = Some (map (\<lambda>b. programmeXML clock ch t ds (cur + int b * K) (cur + int (Suc b) * K))
            [0..<nat ((endDate - cur + K - 1) div K)])"
        by (simp only: count map_upt_Suc) simp
      finally show ?thesis .
    qed
  qed
  then show ?thesis by (simp add: K_def)
qed

lemma generateDummyProgrammes_from_midnight:
  "generateDummyProgrammes clock channel d titleText descTemplate n =
     dummyLoop clock channel d titleText (replaceFirst ''{channel}'' (channelName channel) descTemplate)
       (UTC clock (MakeDate (Day (LocalTime clock (now clock)) + n) 0))
       (UTC clock (MakeDate (Day (LocalTime clock (now clock))) 0))"
  by (simp add: generateDummyProgrammes_def setHoursMidnight_def addDays_def MakeTime_def
      LocalTime_UTC Day_of_days)

text \<open>A duration below one hour: the generator never ends.\<close>

lemma generate_below_one_hour:
  assumes "0 \<le> d" and "d < 1" and "0 < n"
  shows "generateDummyProgrammes clock channel d titleText descTemplate n = None"
proof -
  have "\<lfloor>d\<rfloor> = 0"
    using assms(1,2) by (simp add: floor_eq_iff)
  then have stay: "\<And>t. setHours clock t (real_of_int (getHours clock t) + d) = t"
    using setHours_adds_floor [OF assms(1)] by simp
  have "UTC clock (MakeDate (Day (LocalTime clock (now clock))) 0)
          < UTC clock (MakeDate (Day (LocalTime clock (now clock)) + n) 0)"
    using assms(3) by (simp add: UTC_def MakeDate_def msPerDay_def)
  then show ?thesis
    unfolding generateDummyProgrammes_from_midnight
    by (rule dummyLoop_stuck) (rule stay)
qed

lemma generate_half_hour:
  assumes "0 < n"
  shows "generateDummyProgrammes clock channel (1 / 2) titleText descTemplate n = None"
  using generate_below_one_hour [of "1 / 2" n] assms by simp

text \<open>
  A duration of at least one hour: the generator ends, and yields back-to-back blocks
  from local midnight, each as long as the whole hours of the duration, up to the first
  block that ends at or after the end of the horizon.
\<close>

lemma generate_blocks:
  assumes "1 \<le> d"
  shows "generateDummyProgrammes clock channel d titleText descTemplate n =
     Some (map (\<lambda>b. programmeXML clock channel titleText
                       (replaceFirst ''{channel}'' (channelName channel) descTemplate)
                       (UTC clock (MakeDate (Day (LocalTime clock (now clock))) 0)
                          + int b * (\<lfloor>d\<rfloor> * msPerHour))
                       (UTC clock (MakeDate (Day (LocalTime clock (now clock))) 0)
                          + int (Suc b) * (\<lfloor>d\<rfloor> * msPerHour)))
             [0..<nat ((n * msPerDay + \<lfloor>d\<rfloor> * msPerHour - 1) div (\<lfloor>d\<rfloor> * msPerHour))])"
proof -
  have "UTC clock (MakeDate (Day (LocalTime clock (now clock)) + n) 0)
          - UTC clock (MakeDate (Day (LocalTime clock (now clock))) 0) = n * msPerDay"
    by (simp add: UTC_def MakeDate_def algebra_simps)
  then show ?thesis
    unfolding generateDummyProgrammes_from_midnight dummyLoop_blocks [OF assms]
    by simp
qed

lemma parseDuration_30min: "parseDuration ''30min'' = 1 / 2"
  by (simp add: parseDuration_def toLowerCase_def isUpper_def durationMatch_def isDigit_def
      unitAlternatives_def parseFloat_def digitsValue_def digitValue_def)

text \<open>
  C5 fails on the code. \<^verbatim>\<open>setHours\<close> takes the integer part of its argument, so with the
  half-hour duration that "30min" parses to, \<^verbatim>\<open>nextTime\<close> is \<^verbatim>\<open>currentTime\<close> again:
  for every clock, channel and day horizon of at least one day the generator yields the
  same block for ever and never returns.
\<close>

theorem half_hour_blocks_never_end:
  assumes "0 < n"
  shows "generateDummyProgrammes clock channel (parseDuration ''30min'') titleText descTemplate n
           = None"
  using generate_half_hour [OF assms] by (simp only: parseDuration_30min)

theorem half_hour_blocks_never_end_witness:
  "(0::int) < 7 \<and>
   generateDummyProgrammes exampleClock \<lparr>channelId = ''B'', channelName = ''Beta''\<rparr>
     (parseDuration ''30min'') ''No Information''
     ''No program information is currently available for {channel}.'' 7 = None"
  using half_hour_blocks_never_end [of 7 exampleClock] by simp

subsection \<open>The injector\<close>

text \<open>Once the closing tag has been handled, every later chunk is kept and never written.\<close>

lemma later_chunks_are_dropped:
  "insideClosingTag st \<Longrightarrow> dummyPipeline insertion st chunks = Some []"
proof (induction chunks arbitrary: st)
  case Nil
  then show ?case by (simp add: dummyFlush_def)
next
  case (Cons chunk chunks)
  from Cons.prems have "dummyTransform insertion st chunk
      = Some (st\<lparr>dummyBuffer := dummyBuffer st @ chunk\<rparr>, [])"
    by (simp add: dummyTransform_def)
  with Cons.IH [of "st\<lparr>dummyBuffer := dummyBuffer st @ chunk\<rparr>"] Cons.prems show ?case
    by simp
qed

text \<open>
  What the injector writes for a short input whose first chunk holds the closing tag,
  when the generators end: the text before the tag, the insertion, the tag, and the
  rest of that chunk up to a second closing tag. Later chunks are lost.
\<close>

lemma injection_at_closing_tag:
  assumes "indexOf chunk ''</tv>'' 0 = Some i"
    and "indexOf (drop (i + 5) chunk) ''</tv>'' 0 = None"
  shows "dummyPipeline (Some inserted) \<lparr>dummyBuffer = [], insideClosingTag = False\<rparr> (chunk # later)
           = Some (take i chunk @ inserted @ ''</tv>'' @ drop (i + 5) chunk)"
  using assms later_chunks_are_dropped [of "\<lparr>dummyBuffer = [], insideClosingTag = True\<rparr>" "Some inserted" later]
  by (simp add: dummyTransform_def)

lemma scenario_channels:
  "missingChannels scenarioParsed scenarioLineup = [\<lparr>channelId = ''C'', channelName = ''Gamma''\<rparr>]"
  "channelsNeedingDummy scenarioParsed scenarioLineup = [\<lparr>channelId = ''B'', channelName = ''Beta''\<rparr>]"
  by (simp_all add: missingChannels_def channelsNeedingDummy_def scenarioParsed_def
      scenarioLineup_def existingChannels_def channelsWithPrograms_def truthy_def
      channelInfoOf_def orElse_def)

lemma those_map_Some: "those (map (\<lambda>x. Some (f x)) xs) = Some (map f xs)"
  by (induction xs) simp_all

lemma parseDuration_1hr: "parseDuration ''1hr'' = 1"
  by (simp add: parseDuration_def toLowerCase_def isUpper_def durationMatch_def isDigit_def
      unitAlternatives_def parseFloat_def digitsValue_def digitValue_def)

lemma generate_one_hour_week:
  "\<exists>run. generateDummyProgrammes clock channel 1 titleText descTemplate 7 = Some run
         \<and> length run = 168"
  by (simp add: generate_blocks msPerDay_def msPerHour_def)

text \<open>
  The scenario with one-hour blocks, delivered as one chunk: the output is the document
  with the channel element of C and the 168 blocks of B and of C put before its closing
  tag.
\<close>

lemma injector_scenario_one_hour:
  "\<exists>runB runC.
     generateDummyProgrammes exampleClock \<lparr>channelId = ''B'', channelName = ''Beta''\<rparr> 1
       ''No Information'' ''No program information is currently available for {channel}.'' 7
       = Some runB \<and> length runB = 168 \<and>
     generateDummyProgrammes exampleClock \<lparr>channelId = ''C'', channelName = ''Gamma''\<rparr> 1
       ''No Information'' ''No program information is currently available for {channel}.'' 7
       = Some runC \<and> length runC = 168 \<and>
     streamDummyProgramming exampleClock [scenarioDocument] scenarioParsed scenarioLineup
       (scenarioOptions ''1hr'')
       = Some \<lparr>outputFile = take 206 scenarioDocument
                      @ channelXML \<lparr>channelId = ''C'', channelName = ''Gamma''\<rparr>
                      @ concat runB @ concat runC @ ''</tv>'',
                    channelsAdded = 1, dummyChannels = 2\<rparr>"
proof -
  let ?B = "\<lparr>channelId = ''B'', channelName = ''Beta''\<rparr>"
  let ?C = "\<lparr>channelId = ''C'', channelName = ''Gamma''\<rparr>"
  let ?title = "''No Information''"
  let ?desc = "''No program information is currently available for {channel}.''"
  from generate_one_hour_week [of exampleClock ?B ?title ?desc] obtain runB where
    b: "generateDummyProgrammes exampleClock ?B 1 ?title ?desc 7 = Some runB" "length runB = 168"
    by blast
  from generate_one_hour_week [of exampleClock ?C ?title ?desc] obtain runC where
    c: "generateDummyProgrammes exampleClock ?C 1 ?title ?desc 7 = Some runC" "length runC = 168"
    by blast
  have inserted: "insertedText exampleClock [?C] [?B] 1 ?title ?desc 7
      = Some (channelXML ?C @ concat runB @ concat runC)"
    by (simp add: insertedText_def b c)
  have closing: "indexOf scenarioDocument ''</tv>'' 0 = Some 206"
    by code_simp
  have len: "length scenarioDocument = 211"
    by code_simp
  have rest: "drop (206 + 5) scenarioDocument = []"
    by (simp add: len)
  have once: "indexOf (drop (206 + 5) scenarioDocument) ''</tv>'' 0 = None"
    unfolding rest by code_simp
  have "dummyPipeline (Some (channelXML ?C @ concat runB @ concat runC))
          \<lparr>dummyBuffer = [], insideClosingTag = False\<rparr> [scenarioDocument]
        = Some (take 206 scenarioDocument @ (channelXML ?C @ concat runB @ concat runC)
                  @ ''</tv>'' @ drop (206 + 5) scenarioDocument)"
    using closing once by (rule injection_at_closing_tag)
  then have "streamDummyProgramming exampleClock [scenarioDocument] scenarioParsed scenarioLineup
       (scenarioOptions ''1hr'')
       = Some \<lparr>outputFile = take 206 scenarioDocument @ channelXML ?C
                      @ concat runB @ concat runC @ ''</tv>'',
                    channelsAdded = 1, dummyChannels = 2\<rparr>"
    by (simp add: streamDummyProgramming_def scenarioOptions_def scenario_channels
        parseDuration_1hr orElse_def inserted len Let_def del: dummyPipeline.simps)
  with b c show ?thesis by blast
qed

text \<open>
  C6 fails on the code, through the defect of C5: in the scenario of the claim, with the
  duration "30min", the generator for channel B never ends, so the call never returns
  and the output never receives its closing tag.
\<close>

theorem injector_scenario_half_hour_diverges:
  "streamDummyProgramming exampleClock [scenarioDocument] scenarioParsed scenarioLineup
     (scenarioOptions ''30min'') = None"
proof -
  have closing: "indexOf scenarioDocument ''</tv>'' 0 \<noteq> None"
    by code_simp
  have "insertedText exampleClock [\<lparr>channelId = ''C'', channelName = ''Gamma''\<rparr>]
          [\<lparr>channelId = ''B'', channelName = ''Beta''\<rparr>] (1 / 2) ''No Information''
          ''No program information is currently available for {channel}.'' 7 = None"
    by (simp add: insertedText_def generate_half_hour)
  with closing show ?thesis
    by (auto simp: streamDummyProgramming_def scenarioOptions_def scenario_channels
        parseDuration_30min orElse_def dummyTransform_def Let_def)
qed


section \<open>The transform and the whole document\<close>

text \<open>
  For a document in which every closing marker is closely followed, the filter writes,
  however the document is cut into chunks, what the scan of the whole document gives.
\<close>

subsection \<open>Occurrences\<close>

lemma prefix_take_iff: "prefix pat (take n xs) \<longleftrightarrow> prefix pat xs \<and> length pat \<le> n"
proof
  assume a: "prefix pat (take n xs)"
  then have "prefix pat xs"
    using take_is_prefix prefix_order.trans by blast
  moreover from a have "length pat \<le> n"
    using prefix_length_le by fastforce
  ultimately show "prefix pat xs \<and> length pat \<le> n" by simp
next
  assume "prefix pat xs \<and> length pat \<le> n"
  then obtain zs where "xs = pat @ zs" and "length pat \<le> n"
    by (auto simp: prefix_def)
  then show "prefix pat (take n xs)" by simp
qed

lemma findFrom_Some_iff:
  assumes "pat \<noteq> []"
  shows "findFrom pat s i = Some k \<longleftrightarrow>
           i \<le> k \<and> prefix pat (drop (k - i) s) \<and> (\<forall>d < k - i. \<not> prefix pat (drop d s))"
proof (induction s arbitrary: i)
  case Nil
  with assms show ?case by simp
next
  case (Cons c cs)
  show ?case
  proof (cases "prefix pat (c # cs)")
    case True
    have "k = i" if "i \<le> k" and "\<forall>d < k - i. \<not> prefix pat (drop d (c # cs))"
    proof (rule ccontr)
      assume "k \<noteq> i"
      with that(1) have "0 < k - i" by simp
      with that(2) True show False by fastforce
    qed
    with True show ?thesis by auto
  next
    case False
    have "(i \<le> k \<and> prefix pat (drop (k - i) (c # cs)) \<and> (\<forall>d < k - i. \<not> prefix pat (drop d (c # cs))))
        \<longleftrightarrow> (i + 1 \<le> k \<and> prefix pat (drop (k - (i + 1)) cs) \<and> (\<forall>d < k - (i + 1). \<not> prefix pat (drop d cs)))"
    proof (cases "k \<le> i")
      case True
      with False show ?thesis by auto
    next
      case k: False
      then obtain n where n: "k - i = Suc n" "k - (i + 1) = n"
        by (metis Suc_diff_Suc add.commute diff_diff_left not_le plus_1_eq_Suc)
      have "(\<forall>d < Suc n. \<not> prefix pat (drop d (c # cs))) \<longleftrightarrow> (\<forall>d < n. \<not> prefix pat (drop d cs))"
        using False by (auto simp: less_Suc_eq_0_disj)
      with k n show ?thesis by simp
    qed
    with False Cons.IH [of "i + 1"] show ?thesis by simp
  qed
qed

lemma indexOf_Some_iff:
  assumes "pat \<noteq> []"
  shows "indexOf s pat pos = Some k \<longleftrightarrow>
           pos \<le> k \<and> prefix pat (drop k s) \<and> (\<forall>k'. pos \<le> k' \<and> k' < k \<longrightarrow> \<not> prefix pat (drop k' s))"
proof (cases "pos \<le> length s")
  case True
  have "(\<forall>d < k - pos. \<not> prefix pat (drop (pos + d) s))
      \<longleftrightarrow> (\<forall>k'. pos \<le> k' \<and> k' < k \<longrightarrow> \<not> prefix pat (drop k' s))"
  proof (intro iffI allI impI)
    fix k' assume a: "\<forall>d < k - pos. \<not> prefix pat (drop (pos + d) s)" and "pos \<le> k' \<and> k' < k"
    then have "k' - pos < k - pos" "pos + (k' - pos) = k'" by auto
    with a show "\<not> prefix pat (drop k' s)" by metis
  next
    fix d assume "\<forall>k'. pos \<le> k' \<and> k' < k \<longrightarrow> \<not> prefix pat (drop k' s)" and "d < k - pos"
    then show "\<not> prefix pat (drop (pos + d) s)" by simp
  qed
  with True show ?thesis
    by (auto simp: indexOf_def findFrom_Some_iff [OF assms] add.commute)
next
  case False
  then have "drop k s = []" if "pos \<le> k" using that by simp
  with False assms show ?thesis
    by (auto simp: indexOf_def)
qed

lemma indexOf_None_iff:
  assumes "pat \<noteq> []"
  shows "indexOf s pat pos = None \<longleftrightarrow> (\<forall>k \<ge> pos. \<not> prefix pat (drop k s))"
proof
  assume n: "indexOf s pat pos = None"
  show "\<forall>k \<ge> pos. \<not> prefix pat (drop k s)"
  proof (intro allI impI notI)
    fix k assume k: "pos \<le> k" "prefix pat (drop k s)"
    define P where "P = (\<lambda>k. pos \<le> k \<and> prefix pat (drop k s))"
    from k have "P k" by (simp add: P_def)
    then have "P (LEAST k. P k)"
      by (rule LeastI)
    moreover have "\<And>k'. k' < (LEAST k. P k) \<Longrightarrow> \<not> P k'"
      by (rule not_less_Least)
    ultimately have "indexOf s pat pos = Some (LEAST k. P k)"
      unfolding indexOf_Some_iff [OF assms] P_def by blast
    with n show False by simp
  qed
next
  assume "\<forall>k \<ge> pos. \<not> prefix pat (drop k s)"
  then show "indexOf s pat pos = None"
    using indexOf_Some_iff [OF assms, of s pos] by (cases "indexOf s pat pos") auto
qed


subsection \<open>A search in the buffer and the same search in the document\<close>

lemma drop_window: "drop n P = take (length P - n) (drop n (P @ R))"
  by simp

lemma prefix_window:
  assumes "pat \<noteq> []"
  shows "prefix pat (drop k (drop p P)) \<longleftrightarrow>
           prefix pat (drop (p + k) (P @ R)) \<and> p + k + length pat \<le> length P"
proof -
  from assms have "0 < length pat" by simp
  then have "length pat \<le> length P - (p + k) \<longleftrightarrow> p + k + length pat \<le> length P"
    by arith
  moreover have "drop k (drop p P) = take (length P - (p + k)) (drop (p + k) (P @ R))"
    by (simp add: add.commute)
  ultimately show ?thesis
    by (simp only: prefix_take_iff)
qed

lemma indexOf_window_Some:
  assumes "pat \<noteq> []" and "indexOf (drop p P) pat q = Some k"
  shows "indexOf (P @ R) pat (p + q) = Some (p + k)" and "p + k + length pat \<le> length P"
proof -
  from assms(2) have k: "q \<le> k" "prefix pat (drop k (drop p P))"
    and first: "\<And>k'. q \<le> k' \<Longrightarrow> k' < k \<Longrightarrow> \<not> prefix pat (drop k' (drop p P))"
    unfolding indexOf_Some_iff [OF assms(1)] by blast+
  from k(2) have here: "prefix pat (drop (p + k) (P @ R))" and fits: "p + k + length pat \<le> length P"
    unfolding prefix_window [OF assms(1), of k p P R] by blast+
  show "p + k + length pat \<le> length P" by (rule fits)
  have "\<not> prefix pat (drop k'' (P @ R))" if "p + q \<le> k''" "k'' < p + k" for k''
  proof -
    from that have "q \<le> k'' - p" "k'' - p < k" "p + (k'' - p) = k''" by arith+
    with first [of "k'' - p"] prefix_window [OF assms(1), of "k'' - p" p P R] fits that(2)
    show ?thesis by simp
  qed
  with k(1) here show "indexOf (P @ R) pat (p + q) = Some (p + k)"
    unfolding indexOf_Some_iff [OF assms(1)] by simp
qed

lemma indexOf_window_None:
  assumes "pat \<noteq> []" and "indexOf (drop p P) pat q = None"
    and "indexOf (P @ R) pat (p + q) = Some k"
  shows "length P < k + length pat"
proof -
  from assms(3) have k: "p + q \<le> k" "prefix pat (drop k (P @ R))"
    unfolding indexOf_Some_iff [OF assms(1)] by blast+
  then have "q \<le> k - p" "p + (k - p) = k" by arith+
  moreover from assms(2) \<open>q \<le> k - p\<close> have "\<not> prefix pat (drop (k - p) (drop p P))"
    unfolding indexOf_None_iff [OF assms(1)] by simp
  ultimately show ?thesis
    using prefix_window [OF assms(1), of "k - p" p P R] k(2) by simp
qed

lemma indexOf_drop_None:
  assumes "pat \<noteq> []" and "indexOf (drop p P) pat q = None"
  shows "indexOf P pat (p + q) = None"
proof (cases "indexOf P pat (p + q)")
  case None
  then show ?thesis .
next
  case (Some k)
  with indexOf_window_None [OF assms, of "[]" k] indexOf_from [OF Some assms(1)] show ?thesis
    by simp
qed

lemma indexOf_later_None:
  assumes "pat \<noteq> []" and "indexOf s pat pos = None" and "pos \<le> pos'"
  shows "indexOf s pat pos' = None"
  using assms(2,3) unfolding indexOf_None_iff [OF assms(1)] by simp

lemma indexOf_later_Some:
  assumes "pat \<noteq> []" and "indexOf s pat pos = Some k" and "pos \<le> pos'" and "pos' \<le> k"
  shows "indexOf s pat pos' = Some k"
  using assms(2,3,4) unfolding indexOf_Some_iff [OF assms(1)] by simp

lemma take_window: "a + n \<le> length P \<Longrightarrow> take n (drop a P) = take n (drop a (P @ R))"
  by simp

subsection \<open>The scan of the document, step by step\<close>

lemma scan_outside:
  "scanDocument clock cutoff doc False pos =
     (case indexOf doc ''<programme'' pos of
        None \<Rightarrow> drop pos doc
      | Some i \<Rightarrow> take (i - pos) (drop pos doc) @ scanDocument clock cutoff doc True i)"
  by (subst scanDocument_def, subst documentParts.simps)
    (simp add: scanDocument_def partWritten_def slice_nat sliceFrom_nat split: option.splits)

lemma scan_inside:
  "scanDocument clock cutoff doc True pos =
     (case indexOf doc ''>'' pos of
        None \<Rightarrow> drop pos doc
      | Some j \<Rightarrow>
         (case indexOf doc ''</programme>'' pos of
            None \<Rightarrow> drop pos doc
          | Some e \<Rightarrow>
             (if keepProgramme clock cutoff
                   (case startMatch (take (Suc j - pos) (drop pos doc)) of None \<Rightarrow> [] | Some v \<Rightarrow> v)
              then take (e + 12 - pos) (drop pos doc) else [])
             @ scanDocument clock cutoff doc False (e + 12)))"
proof (cases "indexOf doc ''>'' pos")
  case None
  then show ?thesis
    by (subst scanDocument_def, subst documentParts.simps) (simp add: partWritten_def sliceFrom_nat)
next
  case j: (Some j)
  show ?thesis
  proof (cases "indexOf doc ''</programme>'' pos")
    case None
    with j show ?thesis
      by (subst scanDocument_def, subst documentParts.simps) (simp add: partWritten_def sliceFrom_nat)
  next
    case (Some e)
    with j show ?thesis
      by (subst scanDocument_def, subst documentParts.simps)
        (simp add: scanDocument_def partWritten_def slice_nat_Suc slice_nat_12)
  qed
qed

lemma scan_skip:
  assumes "pos \<le> pos'"
    and "indexOf doc ''<programme'' pos = None
         \<or> (\<exists>k. indexOf doc ''<programme'' pos = Some k \<and> pos' \<le> k)"
  shows "scanDocument clock cutoff doc False pos
           = take (pos' - pos) (drop pos doc) @ scanDocument clock cutoff doc False pos'"
proof -
  have split: "take (b - a) (drop a doc) = take (c - a) (drop a doc) @ take (b - c) (drop c doc)"
    if "a \<le> c" "c \<le> b" for a b c
  proof -
    from that have "take (b - a) (drop a doc) = take ((c - a) + (b - c)) (drop a doc)"
      by simp
    also have "\<dots> = take (c - a) (drop a doc) @ take (b - c) (drop (c - a) (drop a doc))"
      by (rule take_add)
    also from that have "drop (c - a) (drop a doc) = drop c doc"
      by simp
    finally show ?thesis .
  qed
  from assms(2) show ?thesis
  proof
    assume n: "indexOf doc ''<programme'' pos = None"
    then have "indexOf doc ''<programme'' pos' = None"
      using assms(1) by (rule indexOf_later_None [rotated]) simp_all
    moreover from assms(1) have later: "drop (pos' - pos) (drop pos doc) = drop pos' doc"
      by simp
    have "drop pos doc = take (pos' - pos) (drop pos doc) @ drop (pos' - pos) (drop pos doc)"
      by (rule append_take_drop_id [symmetric])
    then have "drop pos doc = take (pos' - pos) (drop pos doc) @ drop pos' doc"
      by (simp only: later)
    ultimately show ?thesis
      using n by (simp add: scan_outside)
  next
    assume "\<exists>k. indexOf doc ''<programme'' pos = Some k \<and> pos' \<le> k"
    then obtain k where k: "indexOf doc ''<programme'' pos = Some k" "pos' \<le> k"
      by blast
    then have "indexOf doc ''<programme'' pos' = Some k"
      using indexOf_later_Some [of "''<programme''" doc pos k pos'] assms(1) by simp
    with k assms(1) split [of pos pos' k] show ?thesis
      by (simp add: scan_outside)
  qed
qed


lemma slice_window_Suc:
  assumes "i \<le> j" and "p + j + 1 \<le> length P"
  shows "slice (drop p P) (int i) (int j + 1) = take (Suc j - i) (drop (p + i) (P @ R))"
proof -
  have "slice (drop p P) (int i) (int j + 1) = take (Suc j - i) (drop i (drop p P))"
    by (simp only: slice_nat_Suc)
  also have "drop i (drop p P) = drop (p + i) P"
    by (simp add: add.commute)
  also have "take (Suc j - i) (drop (p + i) P) = take (Suc j - i) (drop (p + i) (P @ R))"
    using assms by (intro take_window) simp
  finally show ?thesis .
qed

lemma slice_window_12:
  assumes "i \<le> e" and "p + e + 12 \<le> length P"
  shows "slice (drop p P) (int i) (int e + 12) = take (e + 12 - i) (drop (p + i) (P @ R))"
proof -
  have "slice (drop p P) (int i) (int e + 12) = take (e + 12 - i) (drop i (drop p P))"
    by (simp only: slice_nat_12)
  also have "drop i (drop p P) = drop (p + i) P"
    by (simp add: add.commute)
  also have "take (e + 12 - i) (drop (p + i) P) = take (e + 12 - i) (drop (p + i) (P @ R))"
    using assms by (intro take_window) simp
  finally show ?thesis .
qed

subsection \<open>One programme in the buffer\<close>

lemma marker_nonempty [simp]:
  "''<programme'' \<noteq> []" "''>'' \<noteq> []" "''</programme>'' \<noteq> []"
  by simp_all

lemma programmeBody_window:
  assumes buf: "buffer st = drop p P" and read: "startRead (P @ R) st (p + i)"
  shows "case programmeBody clock cutoff st i out of
           Break st' pos' out' \<Rightarrow>
             pos' = i \<and> out' = out \<and> buffer st' = drop p P
             \<and> insideProgramme st' = insideProgramme st
             \<and> startRead (P @ R) st' (p + i)
             \<and> (indexOf P ''>'' (p + i) = None \<or> indexOf P ''</programme>'' (p + i) = None)
         | Continue st' pos' out' \<Rightarrow>
             buffer st' = drop p P \<and> \<not> insideProgramme st' \<and> i + 12 \<le> pos'
             \<and> p + pos' \<le> length P
             \<and> prefix ''</programme>'' (drop (p + pos' - 12) (P @ R))
             \<and> (\<exists>w. out' = out @ w
                   \<and> scanDocument clock cutoff (P @ R) True (p + i)
                       = w @ scanDocument clock cutoff (P @ R) False (p + pos'))"
proof (cases "indexOf (drop p P) ''>'' i")
  case None
  then have "programmeBody clock cutoff st i out = Break st i out"
    by (simp add: programmeBody_def buf)
  moreover have "indexOf P ''>'' (p + i) = None"
    using indexOf_drop_None [of "''>''" p P i] None by simp
  ultimately show ?thesis
    using buf read by simp
next
  case j: (Some j)
  have jd: "indexOf (P @ R) ''>'' (p + i) = Some (p + j)" and jl: "p + j + 1 \<le> length P"
    using indexOf_window_Some(1) [of "''>''" p P i j R]
      indexOf_window_Some(2) [of "''>''" p P i j] j by simp_all
  from indexOf_from [OF j] have ij: "i \<le> j" by simp
  define tag where
    "tag = (case startMatch (take (Suc j - i) (drop (p + i) (P @ R))) of None \<Rightarrow> [] | Some v \<Rightarrow> v)"
  define st1 where
    "st1 = (if programmeStart st = [] then
              (case startMatch (slice (buffer st) (int i) (int j + 1)) of
                 Some v \<Rightarrow> st\<lparr>programmeStart := v\<rparr>
               | None \<Rightarrow> st)
            else st)"
  have openTag: "slice (buffer st) (int i) (int j + 1)
      = take (Suc j - i) (drop (p + i) (P @ R))"
    unfolding buf using ij jl by (rule slice_window_Suc)
  have "Suc (p + j) - (p + i) = Suc j - i"
    by simp
  then have docTag: "slice (P @ R) (int (p + i)) (int (p + j) + 1)
      = take (Suc j - i) (drop (p + i) (P @ R))"
    by (simp only: slice_nat_Suc)
  have b1: "buffer st1 = drop p P" and i1: "insideProgramme st1 = insideProgramme st"
    by (simp_all add: st1_def buf split: option.splits)
  have t1: "programmeStart st1 = tag"
  proof (cases "programmeStart st = []")
    case True
    then show ?thesis
      by (simp add: st1_def openTag tag_def split: option.splits)
  next
    case False
    with read jd docTag show ?thesis
      by (auto simp: startRead_def st1_def tag_def)
  qed
  have r1: "startRead (P @ R) st1 (p + i)"
    unfolding startRead_def t1 using jd docTag
    by (cases "startMatch (take (Suc j - i) (drop (p + i) (P @ R)))") (simp_all add: tag_def)
  show ?thesis
  proof (cases "indexOf (drop p P) ''</programme>'' i")
    case None
    then have "programmeBody clock cutoff st i out = Break st1 i out"
      using j b1 by (simp add: programmeBody_def buf st1_def [symmetric] Let_def)
    moreover have "indexOf P ''</programme>'' (p + i) = None"
      using indexOf_drop_None [of "''</programme>''" p P i] None by simp
    ultimately show ?thesis
      using b1 i1 r1 by simp
  next
    case e: (Some e)
    have ed: "indexOf (P @ R) ''</programme>'' (p + i) = Some (p + e)"
      and el: "p + e + 12 \<le> length P"
      using indexOf_window_Some(1) [of "''</programme>''" p P i e R]
        indexOf_window_Some(2) [of "''</programme>''" p P i e] e by simp_all
    from indexOf_from [OF e] have ie: "i \<le> e" by simp
    define w where
      "w = (if keepProgramme clock cutoff tag
            then take (e + 12 - i) (drop (p + i) (P @ R)) else [])"
    have element: "slice (drop p P) (int i) (int e + 12)
        = take (e + 12 - i) (drop (p + i) (P @ R))"
      using ie el by (rule slice_window_12)
    have body: "programmeBody clock cutoff st i out =
        Continue (st1\<lparr>currentProgramme := [], insideProgramme := False, programmeStart := []\<rparr>)
          (e + 12) (out @ w)"
      using j e b1 t1
      by (simp add: programmeBody_def buf st1_def [symmetric] Let_def element w_def)
    have "prefix ''</programme>'' (drop (p + e) (P @ R))"
      using ed unfolding indexOf_Some_iff [OF marker_nonempty(3)] by simp
    moreover have "scanDocument clock cutoff (P @ R) True (p + i)
        = w @ scanDocument clock cutoff (P @ R) False (p + (e + 12))"
      using jd ed by (simp add: scan_inside [of _ _ _ "p + i"] w_def tag_def add.assoc)
    ultimately show ?thesis
      using body b1 ie el by simp
  qed
qed


subsection \<open>One pass, one call, the whole stream\<close>

lemma startRead_buffer [simp]: "startRead doc (st\<lparr>buffer := b\<rparr>) p = startRead doc st p"
  by (simp add: startRead_def)

lemma no_slip:
  assumes G: "closingTagsFollowed (P @ R)"
    and ended: "12 \<le> p + pos \<and> prefix ''</programme>'' (drop (p + pos - 12) (P @ R))"
    and none: "indexOf (drop p P) ''<programme'' pos = None"
  shows "\<not> int pos < int (length (drop p P)) - 1000"
proof
  assume "int pos < int (length (drop p P)) - 1000"
  then have long: "p + pos + 1000 < length P"
    by simp
  define e where "e = p + pos - 12"
  from ended have e: "e + 12 = p + pos"
    by (simp add: e_def)
  with long have "e < length (P @ R)" "\<not> length (P @ R) \<le> e + 12 + 1000"
    by simp_all
  with G ended e_def obtain k where k: "k \<in> {e + 12 .. e + 12 + 991}"
    "prefix ''<programme'' (drop k (P @ R))"
    unfolding closingTagsFollowed_def by blast
  with e long have "pos \<le> k - p" "p + (k - p) = k" "p + (k - p) + 10 \<le> length P"
    by auto
  with k(2) have "pos \<le> k - p" "prefix ''<programme'' (drop (k - p) (drop p P))"
    using prefix_window [of "''<programme''" "k - p" p P R] by simp_all
  with none show False
    unfolding indexOf_None_iff [OF marker_nonempty(1)] by blast
qed

lemma loopBody_window:
  assumes G: "closingTagsFollowed (P @ R)"
    and buf: "buffer st = drop p P"
    and fits: "p + pos \<le> length P"
    and inside: "insideProgramme st \<Longrightarrow>
                   prefix ''<programme'' (drop (p + pos) (P @ R)) \<and> startRead (P @ R) st (p + pos)"
    and outside: "\<not> insideProgramme st \<Longrightarrow>
                   pos = 0 \<or> (12 \<le> p + pos \<and> prefix ''</programme>'' (drop (p + pos - 12) (P @ R)))"
  shows "case loopBody clock cutoff st pos out of
           Break st1 pos1 out1 \<Rightarrow>
             (\<exists>w p'. out1 = out @ w
                \<and> bufferedAt P R (st1\<lparr>buffer := drop pos1 (buffer st1)\<rparr>) p'
                \<and> scanDocument clock cutoff (P @ R) (insideProgramme st) (p + pos)
                    = w @ scanDocument clock cutoff (P @ R) (insideProgramme st1) p')
         | Continue st1 pos1 out1 \<Rightarrow>
             buffer st1 = drop p P \<and> \<not> insideProgramme st1 \<and> p + pos1 \<le> length P
             \<and> 12 \<le> p + pos1 \<and> prefix ''</programme>'' (drop (p + pos1 - 12) (P @ R))
             \<and> (\<exists>w. out1 = out @ w
                   \<and> scanDocument clock cutoff (P @ R) (insideProgramme st) (p + pos)
                       = w @ scanDocument clock cutoff (P @ R) False (p + pos1))"
proof (cases "insideProgramme st")
  case True
  with inside have marker: "prefix ''<programme'' (drop (p + pos) (P @ R))"
    and read: "startRead (P @ R) st (p + pos)"
    by simp_all
  from True have body: "loopBody clock cutoff st pos out = programmeBody clock cutoff st pos out"
    by (simp add: loopBody_def)
  note element = programmeBody_window [where clock = clock and cutoff = cutoff and out = out,
      OF buf read]
  show ?thesis
  proof (cases "programmeBody clock cutoff st pos out")
    case (Break st1 pos1 out1)
    with element
    have 1: "pos1 = pos" "out1 = out" "buffer st1 = drop p P" "insideProgramme st1"
      "startRead (P @ R) st1 (p + pos)"
      "indexOf P ''>'' (p + pos) = None \<or> indexOf P ''</programme>'' (p + pos) = None"
      using True by simp_all
    with marker fits
    have "bufferedAt P R (st1\<lparr>buffer := drop pos1 (buffer st1)\<rparr>) (p + pos)"
      by (simp add: bufferedAt_def add.commute del: drop_append)
    with 1(2,4) True
    have "\<exists>w p'. out1 = out @ w
        \<and> bufferedAt P R (st1\<lparr>buffer := drop pos1 (buffer st1)\<rparr>) p'
        \<and> scanDocument clock cutoff (P @ R) (insideProgramme st) (p + pos)
            = w @ scanDocument clock cutoff (P @ R) (insideProgramme st1) p'"
      by (intro exI [of _ "[]"] exI [of _ "p + pos"]) simp
    then show ?thesis
      unfolding body Break by simp
  next
    case (Continue st1 pos1 out1)
    with element True show ?thesis
      unfolding body by (simp del: drop_append)
  qed
next
  case False
  show ?thesis
  proof (cases "indexOf (drop p P) ''<programme'' pos")
    case None
    have settled: "indexOf P ''<programme'' (p + pos) = None"
      using indexOf_drop_None [of "''<programme''" p P pos] None by simp
    show ?thesis
    proof (cases "int pos < int (length (drop p P)) - 1000")
      case slip: True
      with no_slip [OF G _ None] outside False have pos: "pos = 0"
        by blast
      define n where "n = length (drop p P) - 1000"
      from slip have n: "p + n + 1000 = length P"
        by (simp add: n_def)
      have body: "loopBody clock cutoff st pos out
          = Break (st\<lparr>buffer := drop n (drop p P)\<rparr>) 0 (out @ take n (drop p P))"
        using False None slip
        by (simp add: loopBody_def buf pos slice_keep_1000 sliceFrom_keep_1000 n_def)
      have "indexOf P ''<programme'' (p + n) = None"
        using indexOf_later_None [of "''<programme''" P "p + pos" "p + n"] settled pos by simp
      with n have at: "bufferedAt P R (st\<lparr>buffer := drop n (drop p P)\<rparr>) (p + n)"
        using False by (simp add: bufferedAt_def add.commute)
      have "indexOf (P @ R) ''<programme'' p = None
          \<or> (\<exists>k. indexOf (P @ R) ''<programme'' p = Some k \<and> p + n \<le> k)"
      proof (cases "indexOf (P @ R) ''<programme'' p")
        case None
        then show ?thesis by simp
      next
        case (Some k)
        with indexOf_window_None [of "''<programme''" p P 0 R k] \<open>indexOf (drop p P) ''<programme'' pos = None\<close>
          pos n show ?thesis
          by simp
      qed
      from scan_skip [where clock = clock and cutoff = cutoff, OF _ this]
      have "scanDocument clock cutoff (P @ R) False p
          = take n (drop p (P @ R)) @ scanDocument clock cutoff (P @ R) False (p + n)"
        by (simp del: drop_append)
      moreover from n have "take n (drop p P) = take n (drop p (P @ R))"
        by (intro take_window) simp
      ultimately have "scanDocument clock cutoff (P @ R) False (p + pos)
          = take n (drop p P) @ scanDocument clock cutoff (P @ R) False (p + n)"
        by (simp add: pos del: drop_append)
      with at False
      have "\<exists>w p'. out @ take n (drop p P) = out @ w
          \<and> bufferedAt P R (st\<lparr>buffer := drop n (drop p P)\<rparr>) p'
          \<and> scanDocument clock cutoff (P @ R) (insideProgramme st) (p + pos)
              = w @ scanDocument clock cutoff (P @ R) (insideProgramme st) p'"
        by (intro exI [of _ "take n (drop p P)"] exI [of _ "p + n"]) simp
      then show ?thesis
        unfolding body by simp
    next
      case noslip: False
      then have body: "loopBody clock cutoff st pos out = Break st pos out"
        using False None by (simp add: loopBody_def buf)
      from settled fits False
      have "bufferedAt P R (st\<lparr>buffer := drop pos (buffer st)\<rparr>) (p + pos)"
        by (simp add: bufferedAt_def buf add.commute)
      then have "\<exists>w p'. out = out @ w
          \<and> bufferedAt P R (st\<lparr>buffer := drop pos (buffer st)\<rparr>) p'
          \<and> scanDocument clock cutoff (P @ R) (insideProgramme st) (p + pos)
              = w @ scanDocument clock cutoff (P @ R) (insideProgramme st) p'"
        by (intro exI [of _ "[]"] exI [of _ "p + pos"]) simp
      then show ?thesis
        unfolding body by simp
    qed
  next
    case i: (Some i)
    have idoc: "indexOf (P @ R) ''<programme'' (p + pos) = Some (p + i)"
      and il: "p + i + 10 \<le> length P"
      using indexOf_window_Some(1) [of "''<programme''" p P pos i R]
        indexOf_window_Some(2) [of "''<programme''" p P pos i] i by simp_all
    from indexOf_from [OF i] have pi: "pos \<le> i" by simp
    define st0 where
      "st0 = st\<lparr>insideProgramme := True, currentProgramme := [], programmeStart := []\<rparr>"
    define t where "t = take (i - pos) (drop (p + pos) (P @ R))"
    have "slice (drop p P) (int pos) (int i) = take (i - pos) (drop pos (drop p P))"
      by (simp only: slice_nat)
    also have "drop pos (drop p P) = drop (p + pos) P"
      by (simp add: add.commute)
    also have "take (i - pos) (drop (p + pos) P) = take (i - pos) (drop (p + pos) (P @ R))"
      using pi il by (intro take_window) simp
    finally have passthrough: "slice (drop p P) (int pos) (int i) = t"
      by (simp only: t_def)
    have body: "loopBody clock cutoff st pos out = programmeBody clock cutoff st0 i (out @ t)"
      using False i by (simp add: loopBody_def buf passthrough st0_def)
    have buf0: "buffer st0 = drop p P" and read0: "startRead (P @ R) st0 (p + i)"
      by (simp_all add: st0_def buf startRead_def)
    have marker: "prefix ''<programme'' (drop (p + i) (P @ R))"
      using idoc unfolding indexOf_Some_iff [OF marker_nonempty(1)] by simp
    have "p + i - (p + pos) = i - pos"
      by simp
    with idoc have scan: "scanDocument clock cutoff (P @ R) False (p + pos)
        = t @ scanDocument clock cutoff (P @ R) True (p + i)"
      by (simp only: scan_outside [of _ _ _ "p + pos"] option.case t_def)
    note element = programmeBody_window [where clock = clock and cutoff = cutoff
        and out = "out @ t", OF buf0 read0]
    show ?thesis
    proof (cases "programmeBody clock cutoff st0 i (out @ t)")
      case (Break st1 pos1 out1)
      with element
      have 1: "pos1 = i" "out1 = out @ t" "buffer st1 = drop p P" "insideProgramme st1"
        "startRead (P @ R) st1 (p + i)"
        "indexOf P ''>'' (p + i) = None \<or> indexOf P ''</programme>'' (p + i) = None"
        by (simp_all add: st0_def)
      with marker il
      have "bufferedAt P R (st1\<lparr>buffer := drop pos1 (buffer st1)\<rparr>) (p + i)"
        by (simp add: bufferedAt_def add.commute del: drop_append)
      with 1(2,4) scan False
      have "\<exists>w p'. out1 = out @ w
          \<and> bufferedAt P R (st1\<lparr>buffer := drop pos1 (buffer st1)\<rparr>) p'
          \<and> scanDocument clock cutoff (P @ R) (insideProgramme st) (p + pos)
              = w @ scanDocument clock cutoff (P @ R) (insideProgramme st1) p'"
        by (intro exI [of _ t] exI [of _ "p + i"]) simp
      then show ?thesis
        unfolding body Break by simp
    next
      case (Continue st1 pos1 out1)
      with element obtain w where w: "out1 = (out @ t) @ w"
        "scanDocument clock cutoff (P @ R) True (p + i)
           = w @ scanDocument clock cutoff (P @ R) False (p + pos1)"
        by auto
      from w scan False
      have "\<exists>w. out1 = out @ w
          \<and> scanDocument clock cutoff (P @ R) (insideProgramme st) (p + pos)
              = w @ scanDocument clock cutoff (P @ R) False (p + pos1)"
        by (intro exI [of _ "t @ w"]) simp
      with element Continue show ?thesis
        unfolding body by (simp del: drop_append)
    qed
  qed
qed

lemma scanLoop_window:
  assumes G: "closingTagsFollowed (P @ R)"
    and buf: "buffer st = drop p P"
    and fits: "p + pos \<le> length P"
    and inside: "insideProgramme st \<Longrightarrow>
                   prefix ''<programme'' (drop (p + pos) (P @ R)) \<and> startRead (P @ R) st (p + pos)"
    and outside: "\<not> insideProgramme st \<Longrightarrow>
                   pos = 0 \<or> (12 \<le> p + pos \<and> prefix ''</programme>'' (drop (p + pos - 12) (P @ R)))"
    and run: "scanLoop clock cutoff st pos out = (st', pos', out')"
  shows "\<exists>w p'. out' = out @ w
           \<and> bufferedAt P R (st'\<lparr>buffer := drop pos' (buffer st')\<rparr>) p'
           \<and> scanDocument clock cutoff (P @ R) (insideProgramme st) (p + pos)
               = w @ scanDocument clock cutoff (P @ R) (insideProgramme st') p'"
  using buf fits inside outside run
proof (induction clock cutoff st pos out rule: scanLoop.induct)
  case (1 clock cutoff st pos out)
  note pass = loopBody_window [where clock = clock and cutoff = cutoff and out = out,
      OF G "1.prems"(1,2,3,4)]
  show ?case
  proof (cases "loopBody clock cutoff st pos out")
    case (Break st1 pos1 out1)
    from scanLoop_Break [OF this] "1.prems"(5) have "st1 = st'" "pos1 = pos'" "out1 = out'"
      by simp_all
    with pass Break show ?thesis
      by simp
  next
    case (Continue st1 pos1 out1)
    with pass have b1: "buffer st1 = drop p P" and o1: "\<not> insideProgramme st1"
      and f1: "p + pos1 \<le> length P"
      and e1: "12 \<le> p + pos1 \<and> prefix ''</programme>'' (drop (p + pos1 - 12) (P @ R))"
      by (simp_all del: drop_append)
    from pass Continue obtain w1 where w1: "out1 = out @ w1"
      "scanDocument clock cutoff (P @ R) (insideProgramme st) (p + pos)
         = w1 @ scanDocument clock cutoff (P @ R) False (p + pos1)"
      by auto
    from scanLoop_Continue [OF Continue] "1.prems"(5)
    have run1: "scanLoop clock cutoff st1 pos1 out1 = (st', pos', out')"
      by simp
    from "1.IH" [OF Continue b1 f1 _ _ run1] o1 e1
    obtain w2 p' where 2: "out' = out1 @ w2"
      "bufferedAt P R (st'\<lparr>buffer := drop pos' (buffer st')\<rparr>) p'"
      "scanDocument clock cutoff (P @ R) (insideProgramme st1) (p + pos1)
         = w2 @ scanDocument clock cutoff (P @ R) (insideProgramme st') p'"
      by blast
    with w1 o1 show ?thesis
      by (intro exI [of _ "w1 @ w2"] exI [of _ p']) simp
  qed
qed

lemma transform_window:
  assumes G: "closingTagsFollowed (P @ chunk @ R)"
    and at: "bufferedAt P (chunk @ R) st p"
    and run: "transform clock cutoff st chunk = (st', out)"
  shows "\<exists>p'. bufferedAt (P @ chunk) R st' p'
           \<and> scanDocument clock cutoff (P @ chunk @ R) (insideProgramme st) p
               = out @ scanDocument clock cutoff (P @ chunk @ R) (insideProgramme st') p'"
proof -
  define st0 where "st0 = st\<lparr>buffer := buffer st @ chunk\<rparr>"
  obtain st1 pos1 out1 where loop: "scanLoop clock cutoff st0 0 [] = (st1, pos1, out1)"
    by (cases "scanLoop clock cutoff st0 0 []") blast
  with run have result: "st' = st1\<lparr>buffer := drop pos1 (buffer st1)\<rparr>" "out = out1"
    by (simp_all add: transform_def st0_def sliceFrom_nat)
  from at have p: "p \<le> length P" and b: "buffer st = drop p P"
    by (simp_all add: bufferedAt_def)
  then have buf0: "buffer st0 = drop p (P @ chunk)"
    by (simp add: st0_def)
  have G': "closingTagsFollowed ((P @ chunk) @ R)"
    using G by simp
  have inside0: "insideProgramme st0 \<Longrightarrow>
      prefix ''<programme'' (drop (p + 0) ((P @ chunk) @ R)) \<and> startRead ((P @ chunk) @ R) st0 (p + 0)"
    using at by (simp add: bufferedAt_def st0_def del: drop_append)
  from scanLoop_window [OF G' buf0 _ inside0 _ loop] p
  obtain w p' where "out1 = [] @ w"
    "bufferedAt (P @ chunk) R (st1\<lparr>buffer := drop pos1 (buffer st1)\<rparr>) p'"
    "scanDocument clock cutoff ((P @ chunk) @ R) (insideProgramme st0) (p + 0)
       = w @ scanDocument clock cutoff ((P @ chunk) @ R) (insideProgramme st1) p'"
    by auto
  with result show ?thesis
    by (auto simp: st0_def)
qed

lemma pipeline_window:
  assumes "closingTagsFollowed (P @ concat chunks)" and "bufferedAt P (concat chunks) st p"
  shows "pipeline clock cutoff st chunks
           = scanDocument clock cutoff (P @ concat chunks) (insideProgramme st) p"
  using assms
proof (induction chunks arbitrary: P st p)
  case Nil
  show ?case
  proof (cases "insideProgramme st")
    case True
    with Nil have b: "buffer st = drop p P"
      and "indexOf P ''>'' p = None \<or> indexOf P ''</programme>'' p = None"
      by (simp_all add: bufferedAt_def)
    then have "scanDocument clock cutoff P True p = drop p P"
      by (subst scan_inside) (auto split: option.splits)
    with True b show ?thesis
      by (simp add: flush_def)
  next
    case False
    with Nil have b: "buffer st = drop p P" and "indexOf P ''<programme'' p = None"
      by (simp_all add: bufferedAt_def)
    then have "scanDocument clock cutoff P False p = drop p P"
      by (subst scan_outside) simp
    with False b show ?thesis
      by (simp add: flush_def)
  qed
next
  case (Cons chunk chunks)
  obtain st' out where t: "transform clock cutoff st chunk = (st', out)"
    by (cases "transform clock cutoff st chunk") blast
  from Cons.prems have G: "closingTagsFollowed (P @ chunk @ concat chunks)"
    and at: "bufferedAt P (chunk @ concat chunks) st p"
    by simp_all
  from transform_window [OF G at t] obtain p' where
    at': "bufferedAt (P @ chunk) (concat chunks) st' p'"
    and scan: "scanDocument clock cutoff (P @ chunk @ concat chunks) (insideProgramme st) p
        = out @ scanDocument clock cutoff (P @ chunk @ concat chunks) (insideProgramme st') p'"
    by blast
  from G have "closingTagsFollowed ((P @ chunk) @ concat chunks)"
    by simp
  from Cons.IH [OF this at'] t scan show ?case
    by simp
qed

lemma filter_is_scan:
  assumes "closingTagsFollowed (concat input)"
  shows "pipeline clock cutoff initialState input = scanDocument clock cutoff (concat input) False 0"
proof -
  have "bufferedAt [] (concat input) initialState 0"
    by (simp add: bufferedAt_def initialState_def indexOf_def)
  from pipeline_window [of "[]" input initialState 0 clock cutoff] assms this show ?thesis
    by (simp add: initialState_def)
qed


subsection \<open>What follows for the output\<close>

lemma filter_is_scanDocument:
  assumes "closingTagsFollowed (concat input)" and "n \<noteq> 0"
  shows "streamFilterEPG clock input \<lparr>days = Some n\<rparr>
           = scanDocument clock (cutoffTimestamp clock n) (concat input) False 0"
  using assms by (simp add: streamFilterEPG_def filter_is_scan)

lemma chunking_without_slip:
  assumes "closingTagsFollowed (concat input)" and "concat input' = concat input"
  shows "streamFilterEPG clock input' options = streamFilterEPG clock input options"
  using assms by (simp add: streamFilterEPG_def filter_is_scan split: option.splits)

lemma short_document: "length doc \<le> 1012 \<Longrightarrow> closingTagsFollowed doc"
  by (simp add: closingTagsFollowed_def)

lemma part_is_written:
  assumes "part \<in> set (documentParts doc inside pos)"
  shows "\<exists>front back. scanDocument clock cutoff doc inside pos
           = front @ partWritten clock cutoff doc part @ back"
proof -
  from assms obtain ps qs where "documentParts doc inside pos = ps @ part # qs"
    by (auto dest: split_list)
  then have "scanDocument clock cutoff doc inside pos
      = concat (map (partWritten clock cutoff doc) ps) @ partWritten clock cutoff doc part
          @ concat (map (partWritten clock cutoff doc) qs)"
    by (simp add: scanDocument_def)
  then show ?thesis by blast
qed



subsection \<open>Programmes without a start attribute\<close>

text \<open>
  C3, as the code has it. A programme element whose opening tag holds no
  \<^verbatim>\<open>start="..."\<close> with a value of at least one character is passed through unchanged,
  whatever the day limit and the cutoff: in a document in which every closing marker is
  closely followed, cut into chunks in any way, the text of every such programme, from
  its marker to the end of its closing marker, is part of the output of
  \<^verbatim>\<open>streamFilterEPG\<close>. Nothing is promised for an element whose start attribute is
  present and is no timestamp.
\<close>

theorem fail_open_without_start:
  assumes "closingTagsFollowed (concat input)"
    and "Programme i j e \<in> set (documentParts (concat input) False 0)"
    and "startMatch (slice (concat input) (int i) (int j + 1)) = None"
  shows "\<exists>front back. streamFilterEPG clock input options
           = front @ slice (concat input) (int i) (int e + 12) @ back"
proof (cases "\<exists>n. days options = Some n \<and> n \<noteq> 0")
  case True
  then obtain n where n: "days options = Some n" "n \<noteq> 0"
    by blast
  from assms(3) have "partWritten clock (cutoffTimestamp clock n) (concat input) (Programme i j e)
      = slice (concat input) (int i) (int e + 12)"
    by (simp add: partWritten_def keepProgramme_def)
  with part_is_written [OF assms(2), of clock "cutoffTimestamp clock n"] n assms(1)
  show ?thesis
    by (simp add: streamFilterEPG_def filter_is_scan)
next
  case False
  then have "streamFilterEPG clock input options = concat input"
    by (auto simp: streamFilterEPG_def split: option.splits)
  moreover have "concat input = take i (concat input)
      @ slice (concat input) (int i) (int e + 12) @ drop (e + 12 - i) (drop i (concat input))"
    by (simp only: slice_nat_12 append_take_drop_id)
  ultimately show ?thesis
    by metis
qed

theorem fail_open_without_start_witness:
  "closingTagsFollowed (concat (byteChunks documentWithoutStart)) \<and>
   Programme 4 28 48 \<in> set (documentParts (concat (byteChunks documentWithoutStart)) False 0) \<and>
   startMatch (slice (concat (byteChunks documentWithoutStart)) (int 4) (int 28 + 1)) = None \<and>
   (\<exists>front back. streamFilterEPG exampleClock (byteChunks documentWithoutStart) \<lparr>days = Some 3\<rparr>
      = front @ slice (concat (byteChunks documentWithoutStart)) (int 4) (int 48 + 12) @ back)"
proof -
  have "length (concat (byteChunks documentWithoutStart)) \<le> 1012"
    by code_simp
  then have g: "closingTagsFollowed (concat (byteChunks documentWithoutStart))"
    by (rule short_document)
  have p: "Programme 4 28 48 \<in> set (documentParts (concat (byteChunks documentWithoutStart)) False 0)"
    by code_simp
  have s: "startMatch (slice (concat (byteChunks documentWithoutStart)) (int 4) (int 28 + 1)) = None"
    by code_simp
  from fail_open_without_start [OF g p s, of exampleClock "\<lparr>days = Some 3\<rparr>"] g p s
  show ?thesis by blast
qed

text \<open>
  C3 as written fails for a start attribute that is present and is no timestamp:
  every \<^verbatim>\<open>parseInt\<close> gives NaN, the date is invalid, the comparison with the cutoff is
  false and the programme is dropped.
\<close>

theorem fail_open_counterexample:
  "streamFilterEPG exampleClock [documentWithStart ''unknown''] \<lparr>days = Some 3\<rparr> = ''<tv></tv>''"
  by code_simp

subsection \<open>The end of the stream\<close>






end
